theory Spec2Isabelle
  imports Main
begin

section \<open>Go values, errors and outcomes\<close>

text \<open>
  The configuration store of the gateway (package mysql, type confStore) keeps every
  configuration domain in one table "configs" and reaches it through gorm. The Go
  functions return a value together with an error, and two of their constructs can
  panic: the type assertion in StoreConfig and the slice expressions of the decoders.
  A Go call therefore has three outcomes here: it panics, it returns a non-nil error
  (the value beside it is nil), or it returns a value and a nil error.
\<close>

datatype num_err = ErrSyntax | ErrRange

datatype error =
    ErrRecordNotFound
  | StorageError string
  | ErrorsNew string
  | NumError string string num_err
  | JsonError string
  | WithMessage error string

datatype 'a result = is_Panic: Panic string | is_Err: Err error | is_Ok: Ok 'a

text \<open>A value of the empty interface: the dynamic types a caller can pass as confVal.\<close>

datatype anyval = AnyString string | AnyInt int | AnyBool bool | AnyBytes "nat list" | AnyNil

subsection \<open>Constants of the source\<close>

definition MysqlConfKeyReorgVersion :: string where
  "MysqlConfKeyReorgVersion = ''reorg.version''"

definition RateLimitStrategyConfKeyPrefix :: string where
  "RateLimitStrategyConfKeyPrefix = ''ratelimit.strategy.''"

definition rateLimitStrategySqlMatchPattern :: string where
  "rateLimitStrategySqlMatchPattern = RateLimitStrategyConfKeyPrefix @ ''%''"

definition AclAllowListConfKeyPrefix :: string where
  "AclAllowListConfKeyPrefix = ''acl.allowlist.''"

definition aclAllowListSqlMatchPattern :: string where
  "aclAllowListSqlMatchPattern = AclAllowListConfKeyPrefix @ ''%''"

definition NodeRouteGroupConfKeyPrefix :: string where
  "NodeRouteGroupConfKeyPrefix = ''noderoute.group.''"

definition nodeRouteGroupSqlMatchPattern :: string where
  "nodeRouteGroupSqlMatchPattern = NodeRouteGroupConfKeyPrefix @ ''%''"

section \<open>The table configs and the gorm calls of the source\<close>

text \<open>
  A row of the table is the struct conf. ID is the auto-incremented primary key (uint32),
  Name is unique and at most 128 bytes, Value at most 16250 bytes (the gorm tags of the
  struct). Timestamps are readings of a clock, as natural numbers.
\<close>

record conf =
  ID :: nat
  Name :: string
  Value :: string
  CreatedAt :: nat
  UpdatedAt :: nat

text \<open>
  The state behind the handle cs.db: the rows of the table in ascending order of
  insertion, the next value of the AUTO_INCREMENT counter, the clock that gorm reads
  when it creates a row, and whether the backing store is unreachable (every call then
  returns a storage error and changes nothing).

  The backing store is an external collaborator. Its model takes from the struct tags
  and the specification what the source relies on: names compare byte by byte, a write
  whose name or value exceeds the bound of its column fails with a storage error, and
  the primary key and the unique index on name are what \<open>wf_db\<close> states.
\<close>

record db =
  configs :: "conf list"
  auto_increment :: nat
  clock :: nat
  unavailable :: bool

definition name_size :: nat where
  "name_size = 128"

definition value_size :: nat where
  "value_size = 16250"

definition connection_error :: error where
  "connection_error = StorageError ''backing store unreachable''"

definition data_too_long :: error where
  "data_too_long = StorageError ''data too long for column''"

definition wf_row :: "db \<Rightarrow> conf \<Rightarrow> bool" where
  "wf_row d c \<longleftrightarrow>
     0 < ID c \<and> ID c < auto_increment d \<and>
     length (Name c) \<le> name_size \<and> length (Value c) \<le> value_size"

definition wf_db :: "db \<Rightarrow> bool" where
  "wf_db d \<longleftrightarrow>
     0 < auto_increment d \<and>
     distinct (map ID (configs d)) \<and> distinct (map Name (configs d)) \<and>
     list_all (wf_row d) (configs d)"

definition empty_db :: db where
  "empty_db = \<lparr>configs = [], auto_increment = 1, clock = 0, unavailable = False\<rparr>"

text \<open>
  The SQL operator LIKE on byte strings: \<open>%\<close> matches any run of bytes, \<open>_\<close> matches
  one byte, every other byte of the pattern matches itself.
\<close>

fun sql_like :: "string \<Rightarrow> string \<Rightarrow> bool" where
  "sql_like [] s = (s = [])"
| "sql_like (p # ps) s =
     (if p = CHR ''%'' then list_ex (\<lambda>k. sql_like ps (drop k s)) [0..<Suc (length s)]
      else if p = CHR ''_'' then (case s of [] \<Rightarrow> False | _ # t \<Rightarrow> sql_like ps t)
      else (case s of [] \<Rightarrow> False | c # t \<Rightarrow> c = p \<and> sql_like ps t))"

text \<open>\<^verbatim>\<open>cs.db.Where("name IN ?", names).Find(&confs)\<close>\<close>

definition Find_name_in :: "string list \<Rightarrow> db \<Rightarrow> error + conf list" where
  "Find_name_in names d =
     (if unavailable d then Inl connection_error
      else Inr (filter (\<lambda>c. Name c \<in> set names) (configs d)))"

text \<open>\<^verbatim>\<open>cs.db.Where("name LIKE ?", pattern).Find(&cfgs)\<close>\<close>

definition Find_name_like :: "string \<Rightarrow> db \<Rightarrow> error + conf list" where
  "Find_name_like pattern d =
     (if unavailable d then Inl connection_error
      else Inr (filter (\<lambda>c. sql_like pattern (Name c)) (configs d)))"

text \<open>
  \<^verbatim>\<open>cs.db.Where("name = ?", name).First(&cfg)\<close>: the first matching row, or
  gorm.ErrRecordNotFound.
\<close>

definition First_name_eq :: "string \<Rightarrow> db \<Rightarrow> error + conf" where
  "First_name_eq name d =
     (if unavailable d then Inl connection_error
      else case filter (\<lambda>c. Name c = name) (configs d) of
             [] \<Rightarrow> Inl ErrRecordNotFound
           | c # _ \<Rightarrow> Inr c)"

text \<open>
  \<^verbatim>\<open>cfg := conf{ID: aclID}; cs.db.First(&cfg)\<close>: gorm turns a non-zero primary key of
  the destination into the condition \<open>id = aclID\<close>; with a zero key there is no
  condition and the first row of the table is returned.
\<close>

definition First_by_ID :: "nat \<Rightarrow> db \<Rightarrow> error + conf" where
  "First_by_ID aclID d =
     (if unavailable d then Inl connection_error
      else case filter (\<lambda>c. aclID = 0 \<or> ID c = aclID) (configs d) of
             [] \<Rightarrow> Inl ErrRecordNotFound
           | c # _ \<Rightarrow> Inr c)"

text \<open>
  \<^verbatim>\<open>cs.db.Clauses(clause.OnConflict{Columns: name, DoUpdates: value}).Create(&conf{...})\<close>:
  an insert of a new row with a fresh id and both timestamps set to the clock; on a
  conflict on the unique column name, the assignment of DoUpdates, which names the
  column value only.
\<close>

definition Create_OnConflict :: "string \<Rightarrow> string \<Rightarrow> db \<Rightarrow> db result" where
  "Create_OnConflict name val d =
     (if unavailable d then Err connection_error
      else if name_size < length name \<or> value_size < length val then Err data_too_long
      else if list_ex (\<lambda>c. Name c = name) (configs d)
      then Ok (d\<lparr>configs := map (\<lambda>c. if Name c = name then c\<lparr>Value := val\<rparr> else c) (configs d)\<rparr>)
      else Ok (d\<lparr>configs := configs d @
                   [\<lparr>ID = auto_increment d, Name = name, Value = val,
                     CreatedAt = clock d, UpdatedAt = clock d\<rparr>],
                 auto_increment := Suc (auto_increment d)\<rparr>))"

text \<open>
  \<^verbatim>\<open>cs.db.Delete(&conf{}, "name = ?", confName)\<close>: the number of rows affected, the
  error, and the table without the rows of that name.
\<close>

definition Delete_name_eq :: "string \<Rightarrow> db \<Rightarrow> (nat \<times> error option) \<times> db" where
  "Delete_name_eq name d =
     (if unavailable d then ((0, Some connection_error), d)
      else ((length (filter (\<lambda>c. Name c = name) (configs d)), None),
            d\<lparr>configs := filter (\<lambda>c. Name c \<noteq> name) (configs d)\<rparr>))"

section \<open>The record store: LoadConfig, StoreConfig, DeleteConfig\<close>

fun LoadConfig_loop :: "conf list \<Rightarrow> (string \<rightharpoonup> anyval) \<Rightarrow> (string \<rightharpoonup> anyval)" where
  "LoadConfig_loop [] res = res"
| "LoadConfig_loop (c # confs) res = LoadConfig_loop confs (res(Name c \<mapsto> AnyString (Value c)))"

definition LoadConfig :: "string list \<Rightarrow> db \<Rightarrow> (string \<rightharpoonup> anyval) result" where
  "LoadConfig confNames d =
     (case Find_name_in confNames d of
        Inl err \<Rightarrow> Err err
      | Inr confs \<Rightarrow> Ok (LoadConfig_loop confs Map.empty))"

text \<open>
  StoreConfig evaluates the type assertion \<open>confVal.(string)\<close> while it builds the
  argument of Create, before the statement runs: a confVal that is not a string panics
  and the table is untouched.
\<close>

definition StoreConfig :: "string \<Rightarrow> anyval \<Rightarrow> db \<Rightarrow> db result" where
  "StoreConfig confName confVal d =
     (case confVal of
        AnyString s \<Rightarrow> Create_OnConflict confName s d
      | _ \<Rightarrow> Panic ''interface conversion: interface {} is not string'')"

definition DeleteConfig :: "string \<Rightarrow> db \<Rightarrow> (bool \<times> error option) \<times> db" where
  "DeleteConfig confName d =
     (case Delete_name_eq confName d of
        ((rowsAffected, err), d') \<Rightarrow> ((0 < rowsAffected, err), d'))"

section \<open>strconv.Itoa and strconv.Atoi\<close>

text \<open>
  Go's int is the 64-bit two's complement integer of the platforms the gateway runs on.
  It is an \<open>int\<close> here, and the one arithmetic operation of the source on it,
  \<open>version + 1\<close>, wraps as the machine addition does.
\<close>

definition wrap_int64 :: "int \<Rightarrow> int" where
  "wrap_int64 x = (x + 2 ^ 63) mod 2 ^ 64 - 2 ^ 63"

definition is_int64 :: "int \<Rightarrow> bool" where
  "is_int64 x \<longleftrightarrow> - (2 ^ 63) \<le> x \<and> x < 2 ^ 63"

text \<open>
  Itoa is FormatInt(int64(i), 10): the digits of the magnitude, most significant first,
  taken from the table of digits, after a minus sign for a negative number.
\<close>

definition digits :: string where
  "digits = ''0123456789''"

fun formatBits :: "nat \<Rightarrow> string" where
  "formatBits u = (if u < 10 then [digits ! u] else formatBits (u div 10) @ [digits ! (u mod 10)])"

declare formatBits.simps [simp del]

definition Itoa :: "int \<Rightarrow> string" where
  "Itoa i = (if i < 0 then CHR ''-'' # formatBits (nat (- i)) else formatBits (nat i))"

text \<open>
  Atoi is ParseInt(s, 10, 0) with the function name of the error replaced. ParseUint
  reads the bytes from the left: a byte that is not a digit is a syntax error, an
  accumulator that would leave the unsigned 64-bit range is a range error, each returned
  at the byte where it is met. ParseInt picks off one sign, and reports a range error
  for a magnitude outside the signed range. The value returned beside a syntax error
  is 0, beside a range error the nearest bound.
\<close>

definition is_digit :: "char \<Rightarrow> bool" where
  "is_digit c \<longleftrightarrow> (48::nat) \<le> of_char c \<and> (of_char c :: nat) \<le> 57"

definition maxUint64 :: nat where
  "maxUint64 = 2 ^ 64 - 1"

fun ParseUint_loop :: "nat \<Rightarrow> string \<Rightarrow> nat \<times> num_err option" where
  "ParseUint_loop n [] = (n, None)"
| "ParseUint_loop n (c # s) =
     (if \<not> is_digit c then (0, Some ErrSyntax)
      else if maxUint64 div 10 + 1 \<le> n then (maxUint64, Some ErrRange)
      else if maxUint64 < n * 10 + (of_char c - 48) then (maxUint64, Some ErrRange)
      else ParseUint_loop (n * 10 + (of_char c - 48)) s)"

definition ParseUint :: "string \<Rightarrow> nat \<times> num_err option" where
  "ParseUint s = (if s = [] then (0, Some ErrSyntax) else ParseUint_loop 0 s)"

definition ParseInt :: "string \<Rightarrow> int \<times> num_err option" where
  "ParseInt s0 =
     (case s0 of
        [] \<Rightarrow> (0, Some ErrSyntax)
      | c # t \<Rightarrow>
          (let neg = (c = CHR ''-'');
               s = (if c = CHR ''+'' \<or> c = CHR ''-'' then t else s0);
               (un, err) = ParseUint s
           in if err = Some ErrSyntax then (0, Some ErrSyntax)
              else if \<not> neg \<and> 2 ^ 63 \<le> un then (2 ^ 63 - 1, Some ErrRange)
              else if neg \<and> 2 ^ 63 < un then (- (2 ^ 63), Some ErrRange)
              else (if neg then - int un else int un, None)))"

definition Atoi :: "string \<Rightarrow> int \<times> error option" where
  "Atoi s = (case ParseInt s of (i, err) \<Rightarrow> (i, map_option (NumError ''Atoi'' s) err))"

text \<open>
  A decimal integer string, in the words of the specification of the reorg counter: an
  optional sign followed by one or more decimal digits.
\<close>

definition is_decimal_integer_string :: "string \<Rightarrow> bool" where
  "is_decimal_integer_string s \<longleftrightarrow>
     (case s of
        [] \<Rightarrow> False
      | c # t \<Rightarrow>
          if c = CHR ''+'' \<or> c = CHR ''-'' then t \<noteq> [] \<and> list_all is_digit t
          else list_all is_digit s)"

section \<open>The reorg counter\<close>

text \<open>
  Modelled from the spec: baseStore.exists, which confStore inherits from a file that
  is not among the sources. It looks for the first row that meets the condition, here
  \<open>name = ?\<close>: a row found fills the destination and gives true, a missing row gives
  false and no error, any other failure of the store is returned as the error.
\<close>

definition exists_name_eq :: "string \<Rightarrow> db \<Rightarrow> error + conf option" where
  "exists_name_eq name d =
     (case First_name_eq name d of
        Inr c \<Rightarrow> Inr (Some c)
      | Inl err \<Rightarrow> (if err = ErrRecordNotFound then Inr None else Inl err))"

definition GetReorgVersion :: "db \<Rightarrow> int \<times> error option" where
  "GetReorgVersion d =
     (case exists_name_eq MysqlConfKeyReorgVersion d of
        Inl err \<Rightarrow> (0, Some err)
      | Inr None \<Rightarrow> (0, None)
      | Inr (Some result) \<Rightarrow> Atoi (Value result))"

text \<open>The parameter dbTx of createOrUpdateReorgVersion is not used by its body.\<close>

definition createOrUpdateReorgVersion :: "db \<Rightarrow> db result" where
  "createOrUpdateReorgVersion d =
     (case GetReorgVersion d of
        (version, Some err) \<Rightarrow> Err err
      | (version, None) \<Rightarrow>
          (let newVersion = Itoa (wrap_int64 (version + 1))
           in StoreConfig MysqlConfKeyReorgVersion (AnyString newVersion) d))"

text \<open>M calls of createOrUpdateReorgVersion one after the other, each on the state the
  one before left; the first call that fails ends the run.\<close>

fun bumps :: "nat \<Rightarrow> db \<Rightarrow> db result" where
  "bumps 0 d = Ok d"
| "bumps (Suc m) d =
     (case createOrUpdateReorgVersion d of
        Ok d' \<Rightarrow> bumps m d'
      | Err err \<Rightarrow> Err err
      | Panic msg \<Rightarrow> Panic msg)"

text \<open>The reading of the counter after M serialized bumps.\<close>

definition bumps_then_get :: "nat \<Rightarrow> db \<Rightarrow> (int \<times> error option) result" where
  "bumps_then_get m d =
     (case bumps m d of
        Ok d' \<Rightarrow> Ok (GetReorgVersion d')
      | Err err \<Rightarrow> Err err
      | Panic msg \<Rightarrow> Panic msg)"

section \<open>The domain decoders and loaders\<close>

text \<open>
  The packages acl, rate, encoding/json and crypto/md5 are not among the sources. What
  the store calls of them is a parameter of its functions: the constructors
  acl.NewAllowList and rate.NewStrategy (an id and a name give an object), json.Unmarshal
  into such an object (the payload and the object give an error or the object filled
  in), and md5.Sum (the bytes of a value give a digest).

  The slice expression \<open>cfg.Name[len(prefix):]\<close> panics when the name is shorter than the
  prefix and otherwise drops that many bytes; it does not compare them with the prefix.

  A warning that a loader logs is the message, the row and the error.
\<close>

type_synonym warning = "string \<times> conf \<times> error"

definition decodeAclAllowLists ::
  "(nat \<Rightarrow> string \<Rightarrow> 'al) \<Rightarrow> (string \<Rightarrow> 'al \<Rightarrow> error + 'al) \<Rightarrow> conf \<Rightarrow> 'al result" where
  "decodeAclAllowLists NewAllowList Unmarshal cfg =
     (if length (Name cfg) < length AclAllowListConfKeyPrefix
      then Panic ''slice bounds out of range''
      else let name = drop (length AclAllowListConfKeyPrefix) (Name cfg)
           in if length name = 0 then Err (ErrorsNew ''allowlist name is too short'')
              else let data = Value cfg;
                       al = NewAllowList (ID cfg) name
                   in case Unmarshal data al of
                        Inl err \<Rightarrow> Err err
                      | Inr al' \<Rightarrow> Ok al')"

definition LoadAclAllowListById ::
  "(nat \<Rightarrow> string \<Rightarrow> 'al) \<Rightarrow> (string \<Rightarrow> 'al \<Rightarrow> error + 'al) \<Rightarrow> nat \<Rightarrow> db \<Rightarrow> 'al result" where
  "LoadAclAllowListById NewAllowList Unmarshal aclID d =
     (case First_by_ID aclID d of
        Inl err \<Rightarrow> Err err
      | Inr cfg \<Rightarrow> decodeAclAllowLists NewAllowList Unmarshal cfg)"

text \<open>
  The loop of LoadAclAllowListConfigs and of LoadRateLimitStrategyConfigs, which differ
  in the decoder they call and in the message they log: a row that fails to decode is
  logged and skipped, a decoded row is entered under its id in both maps.
\<close>

fun decode_rows ::
  "(conf \<Rightarrow> 'a result) \<Rightarrow> (string \<Rightarrow> 'd) \<Rightarrow> string \<Rightarrow> conf list \<Rightarrow>
   (nat \<rightharpoonup> 'a) \<times> (nat \<rightharpoonup> 'd) \<times> warning list \<Rightarrow>
   ((nat \<rightharpoonup> 'a) \<times> (nat \<rightharpoonup> 'd) \<times> warning list) result" where
  "decode_rows decode md5Sum msg [] acc = Ok acc"
| "decode_rows decode md5Sum msg (v # cfgs) (objs, checksums, logged) =
     (case decode v of
        Panic m \<Rightarrow> Panic m
      | Err err \<Rightarrow> decode_rows decode md5Sum msg cfgs (objs, checksums, logged @ [(msg, v, err)])
      | Ok obj \<Rightarrow>
          decode_rows decode md5Sum msg cfgs
            (objs(ID v \<mapsto> obj), checksums(ID v \<mapsto> md5Sum (Value v)), logged))"

text \<open>The nil maps returned for an empty query result read as empty maps.\<close>

definition LoadAclAllowListConfigs ::
  "(nat \<Rightarrow> string \<Rightarrow> 'al) \<Rightarrow> (string \<Rightarrow> 'al \<Rightarrow> error + 'al) \<Rightarrow> (string \<Rightarrow> 'd) \<Rightarrow> db \<Rightarrow>
   ((nat \<rightharpoonup> 'al) \<times> (nat \<rightharpoonup> 'd) \<times> warning list) result" where
  "LoadAclAllowListConfigs NewAllowList Unmarshal md5Sum d =
     (case Find_name_like aclAllowListSqlMatchPattern d of
        Inl err \<Rightarrow> Err err
      | Inr cfgs \<Rightarrow>
          if length cfgs = 0 then Ok (Map.empty, Map.empty, [])
          else decode_rows (decodeAclAllowLists NewAllowList Unmarshal) md5Sum
                 ''Invalid access control allowlist config'' cfgs (Map.empty, Map.empty, []))"

definition decodeRateLimitStrategy ::
  "(nat \<Rightarrow> string \<Rightarrow> 'st) \<Rightarrow> (string \<Rightarrow> 'st \<Rightarrow> error + 'st) \<Rightarrow> conf \<Rightarrow> 'st result" where
  "decodeRateLimitStrategy NewStrategy Unmarshal cfg =
     (if length (Name cfg) < length RateLimitStrategyConfKeyPrefix
      then Panic ''slice bounds out of range''
      else let name = drop (length RateLimitStrategyConfKeyPrefix) (Name cfg)
           in if length name = 0 then Err (ErrorsNew ''strategy name is too short'')
              else let data = Value cfg;
                       stg = NewStrategy (ID cfg) name
                   in case Unmarshal data stg of
                        Inl err \<Rightarrow> Err err
                      | Inr stg' \<Rightarrow> Ok stg')"

definition LoadRateLimitStrategyConfigs ::
  "(nat \<Rightarrow> string \<Rightarrow> 'st) \<Rightarrow> (string \<Rightarrow> 'st \<Rightarrow> error + 'st) \<Rightarrow> (string \<Rightarrow> 'd) \<Rightarrow> db \<Rightarrow>
   ((nat \<rightharpoonup> 'st) \<times> (nat \<rightharpoonup> 'd) \<times> warning list) result" where
  "LoadRateLimitStrategyConfigs NewStrategy Unmarshal md5Sum d =
     (case Find_name_like rateLimitStrategySqlMatchPattern d of
        Inl err \<Rightarrow> Err err
      | Inr cfgs \<Rightarrow>
          if length cfgs = 0 then Ok (Map.empty, Map.empty, [])
          else decode_rows (decodeRateLimitStrategy NewStrategy Unmarshal) md5Sum
                 ''Invalid rate limit strategy config'' cfgs (Map.empty, Map.empty, []))"

subsection \<open>Node route groups\<close>

text \<open>
  The fields ID and Name of NodeRouteGroup carry the tag \<open>json:"-"\<close>: json.Marshal
  writes the field Nodes only and json.Unmarshal assigns the field Nodes only. The two
  parameters are therefore functions of the list of nodes: MarshalNodes gives the
  payload of a group with these nodes, UnmarshalNodes gives the nodes that a payload
  leaves in a group whose Nodes was nil. A nil slice is the empty list.
\<close>

record NodeRouteGroup =
  grpID :: nat
  grpName :: string
  Nodes :: "string list"

definition StoreNodeRouteGroup ::
  "(string list \<Rightarrow> error + string) \<Rightarrow> NodeRouteGroup \<Rightarrow> db \<Rightarrow> db result" where
  "StoreNodeRouteGroup MarshalNodes routeGrp d =
     (case MarshalNodes (Nodes routeGrp) of
        Inl err \<Rightarrow> Err (WithMessage err ''failed to marshal node route group'')
      | Inr cfgVal \<Rightarrow>
          (let cfgKey = NodeRouteGroupConfKeyPrefix @ grpName routeGrp
           in StoreConfig cfgKey (AnyString cfgVal) d))"

definition decodeNodeRouteGroup ::
  "(string \<Rightarrow> error + string list) \<Rightarrow> conf \<Rightarrow> NodeRouteGroup result" where
  "decodeNodeRouteGroup UnmarshalNodes cfg =
     (if length (Name cfg) < length NodeRouteGroupConfKeyPrefix
      then Panic ''slice bounds out of range''
      else let name = drop (length NodeRouteGroupConfKeyPrefix) (Name cfg)
           in if length name = 0 then Err (ErrorsNew ''route group name is too short'')
              else let grp = \<lparr>grpID = ID cfg, grpName = name, Nodes = []\<rparr>;
                       data = Value cfg
                   in case UnmarshalNodes data of
                        Inl err \<Rightarrow> Err err
                      | Inr nodes \<Rightarrow> Ok (grp\<lparr>Nodes := nodes\<rparr>))"

fun route_rows ::
  "(string \<Rightarrow> error + string list) \<Rightarrow> conf list \<Rightarrow>
   (string \<rightharpoonup> NodeRouteGroup) \<times> warning list \<Rightarrow>
   ((string \<rightharpoonup> NodeRouteGroup) \<times> warning list) result" where
  "route_rows UnmarshalNodes [] acc = Ok acc"
| "route_rows UnmarshalNodes (v # cfgs) (res, logged) =
     (case decodeNodeRouteGroup UnmarshalNodes v of
        Panic m \<Rightarrow> Panic m
      | Err err \<Rightarrow>
          route_rows UnmarshalNodes cfgs (res, logged @ [(''Invalid node route config'', v, err)])
      | Ok grp \<Rightarrow> route_rows UnmarshalNodes cfgs (res(grpName grp \<mapsto> grp), logged))"

definition LoadNodeRouteGroups ::
  "(string \<Rightarrow> error + string list) \<Rightarrow> string list \<Rightarrow> db \<Rightarrow>
   ((string \<rightharpoonup> NodeRouteGroup) \<times> warning list) result" where
  "LoadNodeRouteGroups UnmarshalNodes inclusiveGroups d =
     (let nodeRouteGrpConfKeys = map (\<lambda>grp. NodeRouteGroupConfKeyPrefix @ grp) inclusiveGroups
      in case (if length nodeRouteGrpConfKeys = 0
               then Find_name_like nodeRouteGroupSqlMatchPattern d
               else Find_name_in nodeRouteGrpConfKeys d) of
           Inl err \<Rightarrow> Err err
         | Inr cfgs \<Rightarrow>
             if length cfgs = 0 then Ok (Map.empty, [])
             else route_rows UnmarshalNodes cfgs (Map.empty, []))"

section \<open>Sample states\<close>

text \<open>A store with the reorg counter at 41 and one allow-list, on which the theorems
  below are instantiated.\<close>

definition sample_db :: db where
  "sample_db =
     \<lparr>configs =
        [\<lparr>ID = 1, Name = ''reorg.version'', Value = ''41'', CreatedAt = 3, UpdatedAt = 3\<rparr>,
         \<lparr>ID = 2, Name = ''acl.allowlist.fluent'', Value = ''{}'', CreatedAt = 4, UpdatedAt = 4\<rparr>],
      auto_increment = 3, clock = 9, unavailable = False\<rparr>"

text \<open>A store whose reorg counter row was overwritten with a value that is no number.\<close>

definition corrupt_db :: db where
  "corrupt_db =
     \<lparr>configs =
        [\<lparr>ID = 1, Name = ''reorg.version'', Value = ''4x1'', CreatedAt = 3, UpdatedAt = 3\<rparr>],
      auto_increment = 2, clock = 9, unavailable = False\<rparr>"

text \<open>
  Sample instances of the parameters: objects that record the id, the name and the
  payload they were filled from; a json.Unmarshal that accepts the payload \<open>{}\<close>; the
  codec of NodeRouteGroup on the one list of nodes the samples use; a digest function.
\<close>

definition sample_New :: "nat \<Rightarrow> string \<Rightarrow> nat \<times> string \<times> string" where
  "sample_New i n = (i, n, [])"

definition sample_Unmarshal ::
  "string \<Rightarrow> nat \<times> string \<times> string \<Rightarrow> error + nat \<times> string \<times> string" where
  "sample_Unmarshal data obj =
     (if data = ''{}'' then Inr (fst obj, fst (snd obj), data)
      else Inl (JsonError ''unexpected end of JSON input''))"

definition sample_MarshalNodes :: "string list \<Rightarrow> error + string" where
  \<open>sample_MarshalNodes nodes =
     (if nodes = [''http://n1''] then Inr ''{"nodes":["http://n1"]}''
      else Inl (JsonError ''not a sample''))\<close>

definition sample_UnmarshalNodes :: "string \<Rightarrow> error + string list" where
  \<open>sample_UnmarshalNodes data =
     (if data = ''{"nodes":["http://n1"]}'' then Inr [''http://n1'']
      else Inl (JsonError ''unexpected end of JSON input''))\<close>

definition sample_digest :: "string \<Rightarrow> nat list" where
  "sample_digest data = map of_char data"

text \<open>A store with rows of every domain, one of each domain with a payload cut short.\<close>

definition loader_db :: db where
  \<open>loader_db =
     \<lparr>configs =
        [\<lparr>ID = 1, Name = ''acl.allowlist.fluent'', Value = ''{}'', CreatedAt = 1, UpdatedAt = 1\<rparr>,
         \<lparr>ID = 2, Name = ''acl.allowlist.broken'', Value = ''{'', CreatedAt = 1, UpdatedAt = 2\<rparr>,
         \<lparr>ID = 3, Name = ''acl.allowlist.other'', Value = ''{}'', CreatedAt = 2, UpdatedAt = 2\<rparr>,
         \<lparr>ID = 4, Name = ''ratelimit.strategy.default'', Value = ''{}'', CreatedAt = 3, UpdatedAt = 3\<rparr>,
         \<lparr>ID = 5, Name = ''ratelimit.strategy.bad'', Value = ''{'', CreatedAt = 3, UpdatedAt = 3\<rparr>,
         \<lparr>ID = 6, Name = ''ratelimit.strategy.vip'', Value = ''{}'', CreatedAt = 4, UpdatedAt = 4\<rparr>,
         \<lparr>ID = 7, Name = ''noderoute.group.cfxvip'', Value = ''{"nodes":["http://n1"]}'',
           CreatedAt = 5, UpdatedAt = 5\<rparr>,
         \<lparr>ID = 8, Name = ''noderoute.group.bad'', Value = ''{'', CreatedAt = 5, UpdatedAt = 5\<rparr>,
         \<lparr>ID = 9, Name = ''reorg.version'', Value = ''7'', CreatedAt = 6, UpdatedAt = 6\<rparr>],
      auto_increment = 10, clock = 9, unavailable = False\<rparr>\<close>

text \<open>A group to store, and the payload json.Marshal gives for it.\<close>

definition sample_group :: NodeRouteGroup where
  "sample_group = \<lparr>grpID = 0, grpName = ''cfxvip'', Nodes = [''http://n1'']\<rparr>"

definition sample_payload :: string where
  \<open>sample_payload = ''{"nodes":["http://n1"]}''\<close>

section \<open>Properties of the backing store model\<close>

subsection \<open>The match patterns select the names that start with the prefix\<close>

lemma sql_like_percent: "sql_like ''%'' s"
proof -
  have "length s \<in> set [0..<Suc (length s)]" by simp
  moreover have "sql_like [] (drop (length s) s)" by simp
  ultimately show ?thesis
    unfolding sql_like.simps list_ex_iff by (metis (mono_tags, lifting))
qed

lemma sql_like_prefix:
  "CHR ''%'' \<notin> set p \<Longrightarrow> CHR ''_'' \<notin> set p \<Longrightarrow>
   sql_like (p @ ''%'') s \<longleftrightarrow> take (length p) s = p"
proof (induction p arbitrary: s)
  case Nil
  show ?case using sql_like_percent by simp
next
  case (Cons a p)
  then show ?case by (cases s) auto
qed

lemma like_acl:
  "sql_like aclAllowListSqlMatchPattern s \<longleftrightarrow>
   take (length AclAllowListConfKeyPrefix) s = AclAllowListConfKeyPrefix"
proof -
  have "CHR ''%'' \<notin> set AclAllowListConfKeyPrefix" and "CHR ''_'' \<notin> set AclAllowListConfKeyPrefix"
    by (simp_all add: AclAllowListConfKeyPrefix_def)
  then show ?thesis
    unfolding aclAllowListSqlMatchPattern_def by (rule sql_like_prefix)
qed

lemma like_rate:
  "sql_like rateLimitStrategySqlMatchPattern s \<longleftrightarrow>
   take (length RateLimitStrategyConfKeyPrefix) s = RateLimitStrategyConfKeyPrefix"
proof -
  have "CHR ''%'' \<notin> set RateLimitStrategyConfKeyPrefix" and "CHR ''_'' \<notin> set RateLimitStrategyConfKeyPrefix"
    by (simp_all add: RateLimitStrategyConfKeyPrefix_def)
  then show ?thesis
    unfolding rateLimitStrategySqlMatchPattern_def by (rule sql_like_prefix)
qed


subsection \<open>Writes keep the table well formed\<close>

lemma wf_db_empty: "wf_db empty_db"
  by (simp add: wf_db_def empty_db_def)

lemma ID_update_value:
  "ID \<circ> (\<lambda>c. if Name c = n then c\<lparr>Value := v\<rparr> else c) = ID"
  by (auto simp: fun_eq_iff)

lemma Name_update_value:
  "Name \<circ> (\<lambda>c. if Name c = n then c\<lparr>Value := v\<rparr> else c) = Name"
  by (auto simp: fun_eq_iff)

lemma Create_OnConflict_wf:
  assumes "wf_db d" and "Create_OnConflict n v d = Ok d'"
  shows "wf_db d'"
proof -
  from assms(2) have up: "\<not> unavailable d" and ln: "length n \<le> name_size"
    and lv: "length v \<le> value_size"
    by (auto simp: Create_OnConflict_def split: if_splits)
  show ?thesis
  proof (cases "list_ex (\<lambda>c. Name c = n) (configs d)")
    case True
    with assms(2) up ln lv
    have d': "d' = d\<lparr>configs := map (\<lambda>c. if Name c = n then c\<lparr>Value := v\<rparr> else c) (configs d)\<rparr>"
      by (simp add: Create_OnConflict_def)
    from assms(1) lv show ?thesis
      unfolding d' wf_db_def
      by (auto simp: ID_update_value Name_update_value list_all_iff wf_row_def)
  next
    case False
    with assms(2) up ln lv
    have d': "d' = d\<lparr>configs := configs d @
                   [\<lparr>ID = auto_increment d, Name = n, Value = v,
                     CreatedAt = clock d, UpdatedAt = clock d\<rparr>],
                 auto_increment := Suc (auto_increment d)\<rparr>"
      by (simp add: Create_OnConflict_def)
    from False have fresh: "n \<notin> Name ` set (configs d)"
      by (auto simp: list_ex_iff)
    from assms(1) have "\<forall>c\<in>set (configs d). ID c < auto_increment d"
      by (auto simp: wf_db_def list_all_iff wf_row_def)
    then have freshid: "auto_increment d \<notin> ID ` set (configs d)" by auto
    from assms(1) ln lv fresh freshid show ?thesis
      unfolding d' wf_db_def
      by (auto simp: list_all_iff wf_row_def)
  qed
qed

lemma Delete_name_eq_wf:
  assumes "wf_db d"
  shows "wf_db (snd (Delete_name_eq n d))"
  using assms
  by (auto simp: Delete_name_eq_def wf_db_def list_all_iff wf_row_def distinct_map_filter)

lemma filter_Name_neq_id:
  "\<not> list_ex (\<lambda>c. Name c = n) cs \<Longrightarrow> filter (\<lambda>c. Name c \<noteq> n) cs = cs"
  by (induction cs) auto

lemma filter_Name_eq_nonempty:
  "list_ex (\<lambda>c. Name c = n) cs \<Longrightarrow> filter (\<lambda>c. Name c = n) cs \<noteq> []"
  by (auto simp: list_ex_iff filter_empty_conv)

lemma unique_name_one_row:
  "distinct (map Name cs) \<Longrightarrow> list_ex (\<lambda>c. Name c = n) cs \<Longrightarrow>
   length (filter (\<lambda>c. Name c = n) cs) = 1"
proof (induction cs)
  case Nil
  then show ?case by simp
next
  case (Cons c cs)
  show ?case
  proof (cases "Name c = n")
    case True
    with Cons.prems(1) have "\<forall>x\<in>set cs. Name x \<noteq> n" by (auto simp: image_iff)
    then have "filter (\<lambda>c. Name c = n) cs = []" by (simp add: filter_empty_conv)
    with True show ?thesis by simp
  next
    case False
    with Cons show ?thesis by simp
  qed
qed

subsection \<open>Atoi reads back what Itoa writes\<close>

lemma digits_nth:
  "k < 10 \<Longrightarrow> is_digit (digits ! k) \<and> (of_char (digits ! k) :: nat) - 48 = k"
proof -
  assume "k < 10"
  then have "k = 0 \<or> k = 1 \<or> k = 2 \<or> k = 3 \<or> k = 4 \<or> k = 5 \<or> k = 6
    \<or> k = 7 \<or> k = 8 \<or> k = 9" by arith
  then show ?thesis
    by (elim disjE) (simp_all add: digits_def is_digit_def)
qed

lemma digits_nth_not_sign:
  "k < 10 \<Longrightarrow> digits ! k \<noteq> CHR ''-'' \<and> digits ! k \<noteq> CHR ''+''"
proof -
  assume "k < 10"
  then have "k = 0 \<or> k = 1 \<or> k = 2 \<or> k = 3 \<or> k = 4 \<or> k = 5 \<or> k = 6
    \<or> k = 7 \<or> k = 8 \<or> k = 9" by arith
  then show ?thesis
    by (elim disjE) (simp_all add: digits_def)
qed

lemma ParseUint_loop_snoc:
  "ParseUint_loop n (s @ [c]) =
     (case ParseUint_loop n s of
        (m, None) \<Rightarrow> ParseUint_loop m [c]
      | (m, Some e) \<Rightarrow> (m, Some e))"
  by (induction s arbitrary: n) auto

lemma formatBits_nonempty: "formatBits u \<noteq> []"
  by (subst formatBits.simps) simp

lemma formatBits_hd_not_sign:
  "\<exists>c t. formatBits u = c # t \<and> c \<noteq> CHR ''-'' \<and> c \<noteq> CHR ''+''"
proof (induction u rule: formatBits.induct)
  case (1 u)
  show ?case
  proof (cases "u < 10")
    case True
    then show ?thesis
      by (subst formatBits.simps) (simp add: digits_nth_not_sign)
  next
    case False
    with "1" obtain c t where "formatBits (u div 10) = c # t"
      "c \<noteq> CHR ''-''" "c \<noteq> CHR ''+''" by blast
    with False show ?thesis
      by (subst formatBits.simps) simp
  qed
qed

lemma ParseUint_loop_formatBits:
  "u \<le> maxUint64 \<Longrightarrow> ParseUint_loop 0 (formatBits u) = (u, None)"
proof (induction u rule: formatBits.induct)
  case (1 u)
  show ?case
  proof (cases "u < 10")
    case True
    with "1.prems" show ?thesis
      by (subst formatBits.simps) (simp add: digits_nth maxUint64_def)
  next
    case False
    from "1.prems" have le: "u div 10 \<le> maxUint64" by simp
    with "1.IH" False have ih: "ParseUint_loop 0 (formatBits (u div 10)) = (u div 10, None)"
      by simp
    have d: "is_digit (digits ! (u mod 10))" "(of_char (digits ! (u mod 10)) :: nat) - 48 = u mod 10"
      using digits_nth [of "u mod 10"] by simp_all
    from "1.prems" have c1: "\<not> maxUint64 div 10 + 1 \<le> u div 10"
      by (simp add: maxUint64_def)
    have c2: "u div 10 * 10 + u mod 10 = u" by simp
    from False have "formatBits u = formatBits (u div 10) @ [digits ! (u mod 10)]"
      by (subst formatBits.simps) simp
    with ih d c1 c2 "1.prems" show ?thesis
      by (simp add: ParseUint_loop_snoc)
  qed
qed

lemma Atoi_Itoa: "is_int64 i \<Longrightarrow> Atoi (Itoa i) = (i, None)"
proof (cases "i < 0")
  case True
  assume r: "is_int64 i"
  then have le: "nat (- i) \<le> maxUint64" and le63: "\<not> (2::nat) ^ 63 < nat (- i)"
    by (auto simp: is_int64_def maxUint64_def)
  from le have "ParseUint (formatBits (nat (- i))) = (nat (- i), None)"
    by (simp add: ParseUint_def formatBits_nonempty ParseUint_loop_formatBits)
  with True le63 show ?thesis
    by (simp add: Atoi_def Itoa_def ParseInt_def)
next
  case False
  assume r: "is_int64 i"
  then have le: "nat i \<le> maxUint64" and lt63: "\<not> (2::nat) ^ 63 \<le> nat i"
    using False by (auto simp: is_int64_def maxUint64_def)
  from le have pu: "ParseUint (formatBits (nat i)) = (nat i, None)"
    by (simp add: ParseUint_def formatBits_nonempty ParseUint_loop_formatBits)
  obtain c t where ct: "formatBits (nat i) = c # t" "c \<noteq> CHR ''-''" "c \<noteq> CHR ''+''"
    using formatBits_hd_not_sign by blast
  from pu ct have "ParseUint (c # t) = (nat i, None)" by simp
  with False lt63 ct show ?thesis
    by (simp add: Atoi_def Itoa_def ParseInt_def)
qed

subsection \<open>What Atoi accepts\<close>

lemma ParseUint_loop_ok_digits:
  "snd (ParseUint_loop n s) = None \<Longrightarrow> list_all is_digit s"
  by (induction s arbitrary: n) (auto split: if_splits)

lemma ParseUint_loop_ok_bound:
  "ParseUint_loop n s = (m, None) \<Longrightarrow> n \<le> maxUint64 \<Longrightarrow> m \<le> maxUint64"
  by (induction s arbitrary: n) (auto split: if_splits)

lemma ParseUint_ok_digits:
  "snd (ParseUint s) = None \<Longrightarrow> s \<noteq> [] \<and> list_all is_digit s"
  by (auto simp: ParseUint_def ParseUint_loop_ok_digits split: if_splits)

lemma ParseUint_error_cases:
  "snd (ParseUint s) = None \<or> snd (ParseUint s) = Some ErrSyntax \<or>
   (ParseUint s = (maxUint64, Some ErrRange))"
proof -
  have "snd (ParseUint_loop n s) = None \<or> snd (ParseUint_loop n s) = Some ErrSyntax \<or>
        ParseUint_loop n s = (maxUint64, Some ErrRange)" for n
    by (induction s arbitrary: n) auto
  then show ?thesis by (auto simp: ParseUint_def)
qed

lemma ParseInt_ok_decimal:
  assumes "snd (ParseInt s) = None"
  shows "is_decimal_integer_string s"
proof (cases s)
  case Nil
  with assms show ?thesis by (simp add: ParseInt_def)
next
  case (Cons c t)
  let ?s' = "if c = CHR ''+'' \<or> c = CHR ''-'' then t else s"
  obtain un err where pu: "ParseUint ?s' = (un, err)" by (cases "ParseUint ?s'")
  from assms Cons pu have "err = None"
    using ParseUint_error_cases [of ?s']
    by (auto simp: ParseInt_def maxUint64_def split: if_splits)
  with pu have "?s' \<noteq> [] \<and> list_all is_digit ?s'"
    using ParseUint_ok_digits [of ?s'] by simp
  with Cons show ?thesis
    by (auto simp: is_decimal_integer_string_def split: if_splits)
qed

lemma ParseInt_ok_int64:
  assumes "ParseInt s = (i, None)"
  shows "is_int64 i"
proof (cases s)
  case Nil
  with assms show ?thesis by (simp add: ParseInt_def)
next
  case (Cons c t)
  let ?s' = "if c = CHR ''+'' \<or> c = CHR ''-'' then t else s"
  obtain un err where pu: "ParseUint ?s' = (un, err)" by (cases "ParseUint ?s'")
  from assms Cons pu show ?thesis
    by (auto simp: ParseInt_def is_int64_def split: if_splits)
qed

lemma Atoi_ok_int64: "Atoi s = (i, None) \<Longrightarrow> is_int64 i"
  by (cases "ParseInt s") (auto simp: Atoi_def dest: ParseInt_ok_int64)

lemma Atoi_not_decimal:
  assumes "\<not> is_decimal_integer_string s"
  shows "\<exists>v k. Atoi s = (v, Some (NumError ''Atoi'' s k))"
proof -
  obtain i err where pi: "ParseInt s = (i, err)" by (cases "ParseInt s")
  with assms have "err \<noteq> None" using ParseInt_ok_decimal [of s] by auto
  then obtain k where "err = Some k" by auto
  with pi show ?thesis by (simp add: Atoi_def)
qed

subsection \<open>Unique names, the length of Itoa, and wrap-around\<close>

lemma filter_unique:
  "distinct (map f xs) \<Longrightarrow> x \<in> set xs \<Longrightarrow> filter (\<lambda>y. f y = f x) xs = [x]"
proof (induction xs)
  case Nil
  then show ?case by simp
next
  case (Cons a xs)
  show ?case
  proof (cases "a = x")
    case True
    with Cons.prems(1) have "\<forall>y\<in>set xs. f y \<noteq> f x" by (auto simp: image_iff)
    then have "filter (\<lambda>y. f y = f x) xs = []" by (simp add: filter_empty_conv)
    with True show ?thesis by simp
  next
    case False
    with Cons.prems have "x \<in> set xs" and "f a \<noteq> f x" by (auto simp: image_iff)
    with Cons show ?thesis by simp
  qed
qed

lemma First_name_eq_unique:
  "\<not> unavailable d \<Longrightarrow> distinct (map Name (configs d)) \<Longrightarrow> c \<in> set (configs d) \<Longrightarrow>
   First_name_eq (Name c) d = Inr c"
  by (simp add: First_name_eq_def filter_unique)

lemma length_formatBits:
  "u < 10 ^ k \<Longrightarrow> 0 < k \<Longrightarrow> length (formatBits u) \<le> k"
proof (induction u arbitrary: k rule: formatBits.induct)
  case (1 u)
  show ?case
  proof (cases "u < 10")
    case True
    with "1.prems" show ?thesis by (subst formatBits.simps) simp
  next
    case False
    from "1.prems" obtain j where k: "k = Suc j" by (cases k) auto
    with "1.prems" have lt: "u div 10 < 10 ^ j" by (simp add: less_mult_imp_div_less mult.commute)
    from False k "1.prems" have "0 < j" by (cases j) auto
    with "1.IH" False lt have "length (formatBits (u div 10)) \<le> j" by simp
    with False k show ?thesis by (subst formatBits.simps) simp
  qed
qed

lemma length_Itoa: "is_int64 i \<Longrightarrow> length (Itoa i) \<le> 20"
proof -
  assume r: "is_int64 i"
  have "length (formatBits (nat \<bar>i\<bar>)) \<le> 19"
  proof (rule length_formatBits)
    from r show "nat \<bar>i\<bar> < 10 ^ 19" by (auto simp: is_int64_def)
  qed simp
  then show ?thesis by (auto simp: Itoa_def abs_if)
qed

lemma wrap_int64_range: "is_int64 (wrap_int64 x)"
  by (simp add: wrap_int64_def is_int64_def)

lemma wrap_int64_id: "is_int64 x \<Longrightarrow> wrap_int64 x = x"
  by (simp add: wrap_int64_def is_int64_def)

subsection \<open>One bump adds one to the version read back\<close>

lemma Create_OnConflict_First:
  assumes "Create_OnConflict n v d = Ok d'"
  shows "\<not> unavailable d' \<and> (\<exists>c. First_name_eq n d' = Inr c \<and> Value c = v)"
proof -
  from assms have up: "\<not> unavailable d" and ln: "\<not> name_size < length n"
    and lv: "\<not> value_size < length v"
    by (auto simp: Create_OnConflict_def split: if_splits)
  show ?thesis
  proof (cases "list_ex (\<lambda>c. Name c = n) (configs d)")
    case True
    let ?upd = "\<lambda>c. if Name c = n then c\<lparr>Value := v\<rparr> else c"
    from True assms up ln lv have d': "d' = d\<lparr>configs := map ?upd (configs d)\<rparr>"
      by (simp add: Create_OnConflict_def)
    have f: "filter (\<lambda>c. Name c = n) (map ?upd cs) = map (\<lambda>c. c\<lparr>Value := v\<rparr>) (filter (\<lambda>c. Name c = n) cs)" for cs
      by (induction cs) auto
    from True have "filter (\<lambda>c. Name c = n) (configs d) \<noteq> []"
      by (rule filter_Name_eq_nonempty)
    then obtain c cs where "filter (\<lambda>c. Name c = n) (configs d) = c # cs"
      by (cases "filter (\<lambda>c. Name c = n) (configs d)") auto
    with up show ?thesis
      unfolding d' by (simp add: First_name_eq_def f)
  next
    case False
    with assms up ln lv
    have d': "d' = d\<lparr>configs := configs d @
                   [\<lparr>ID = auto_increment d, Name = n, Value = v,
                     CreatedAt = clock d, UpdatedAt = clock d\<rparr>],
                 auto_increment := Suc (auto_increment d)\<rparr>"
      by (simp add: Create_OnConflict_def)
    from False have "filter (\<lambda>c. Name c = n) (configs d) = []"
      by (auto simp: list_ex_iff filter_empty_conv)
    with up show ?thesis
      unfolding d' by (simp add: First_name_eq_def)
  qed
qed

lemma Create_OnConflict_total:
  "\<not> unavailable d \<Longrightarrow> length n \<le> name_size \<Longrightarrow> length v \<le> value_size \<Longrightarrow>
   \<exists>d'. Create_OnConflict n v d = Ok d'"
  by (simp add: Create_OnConflict_def)

lemma GetReorgVersion_int64: "GetReorgVersion d = (v, None) \<Longrightarrow> is_int64 v"
  by (auto simp: GetReorgVersion_def is_int64_def split: sum.splits option.splits
      dest: Atoi_ok_int64)

lemma GetReorgVersion_absent:
  "\<not> unavailable d \<Longrightarrow> \<not> list_ex (\<lambda>c. Name c = MysqlConfKeyReorgVersion) (configs d) \<Longrightarrow>
   GetReorgVersion d = (0, None)"
proof -
  assume up: "\<not> unavailable d"
    and "\<not> list_ex (\<lambda>c. Name c = MysqlConfKeyReorgVersion) (configs d)"
  then have "filter (\<lambda>c. Name c = MysqlConfKeyReorgVersion) (configs d) = []"
    by (auto simp: list_ex_iff filter_empty_conv)
  with up show ?thesis
    by (simp add: GetReorgVersion_def exists_name_eq_def First_name_eq_def)
qed

lemma bump_step:
  assumes "\<not> unavailable d" and "GetReorgVersion d = (v, None)"
  shows "\<exists>d'. createOrUpdateReorgVersion d = Ok d' \<and> \<not> unavailable d' \<and>
              GetReorgVersion d' = (wrap_int64 (v + 1), None)"
proof -
  let ?new = "Itoa (wrap_int64 (v + 1))"
  have r: "is_int64 (wrap_int64 (v + 1))" by (rule wrap_int64_range)
  then have "length ?new \<le> 20" by (rule length_Itoa)
  then have lv: "length ?new \<le> value_size" by (simp add: value_size_def)
  have ln: "length MysqlConfKeyReorgVersion \<le> name_size"
    by (simp add: MysqlConfKeyReorgVersion_def name_size_def)
  from assms(1) ln lv obtain d' where
    c: "Create_OnConflict MysqlConfKeyReorgVersion ?new d = Ok d'"
    using Create_OnConflict_total by blast
  with assms(2) have run: "createOrUpdateReorgVersion d = Ok d'"
    by (simp add: createOrUpdateReorgVersion_def StoreConfig_def)
  from c obtain row where up': "\<not> unavailable d'"
    and row: "First_name_eq MysqlConfKeyReorgVersion d' = Inr row" "Value row = ?new"
    using Create_OnConflict_First by blast
  from row have "GetReorgVersion d' = Atoi ?new"
    by (simp add: GetReorgVersion_def exists_name_eq_def)
  with r have "GetReorgVersion d' = (wrap_int64 (v + 1), None)"
    by (simp add: Atoi_Itoa)
  with run up' show ?thesis by blast
qed

lemma bumps_version:
  "\<not> unavailable d \<Longrightarrow> GetReorgVersion d = (v, None) \<Longrightarrow>
   \<exists>d'. bumps m d = Ok d' \<and> \<not> unavailable d' \<and>
        GetReorgVersion d' = (wrap_int64 (v + int m), None)"
proof (induction m arbitrary: d v)
  case 0
  then have "is_int64 v" by (auto dest: GetReorgVersion_int64)
  with 0 show ?case by (simp add: wrap_int64_id)
next
  case (Suc m)
  from bump_step [OF Suc.prems] obtain d1 where
    d1: "createOrUpdateReorgVersion d = Ok d1" "\<not> unavailable d1"
        "GetReorgVersion d1 = (wrap_int64 (v + 1), None)" by blast
  from Suc.IH [OF d1(2,3)] obtain d' where
    d': "bumps m d1 = Ok d'" "\<not> unavailable d'"
        "GetReorgVersion d' = (wrap_int64 (wrap_int64 (v + 1) + int m), None)" by blast
  have "wrap_int64 (wrap_int64 (v + 1) + int m) = wrap_int64 (v + int (Suc m))"
    by (simp add: wrap_int64_def mod_simps algebra_simps)
  with d1 d' show ?case by simp
qed

subsection \<open>The loops of the bulk loaders\<close>



lemma decode_rows_dom:
  "decode_rows decode md5Sum msg cfgs (objs, cks, lg) = Ok (objs', cks', lg') \<Longrightarrow>
   dom objs' = dom objs \<union> ID ` {v \<in> set cfgs. is_Ok (decode v)} \<and>
   dom cks' = dom cks \<union> ID ` {v \<in> set cfgs. is_Ok (decode v)} \<and>
   length lg' = length lg + length (filter (\<lambda>v. is_Err (decode v)) cfgs)"
proof (induction cfgs arbitrary: objs cks lg)
  case Nil
  then show ?case by simp
next
  case (Cons a cfgs)
  let ?S = "ID ` {v \<in> set cfgs. is_Ok (decode v)}"
  let ?K = "length (filter (\<lambda>v. is_Err (decode v)) cfgs)"
  show ?case
  proof (cases "decode a")
    case (Panic m)
    with Cons.prems show ?thesis by simp
  next
    case (Err e)
    with Cons.prems
    have "decode_rows decode md5Sum msg cfgs (objs, cks, lg @ [(msg, a, e)]) = Ok (objs', cks', lg')"
      by simp
    then have ih: "dom objs' = dom objs \<union> ?S \<and> dom cks' = dom cks \<union> ?S \<and>
                   length lg' = length (lg @ [(msg, a, e)]) + ?K"
      by (rule Cons.IH)
    have s: "ID ` {v \<in> set (a # cfgs). is_Ok (decode v)} = ?S" using Err by auto
    have k: "length (filter (\<lambda>v. is_Err (decode v)) (a # cfgs)) = Suc ?K" using Err by simp
    show ?thesis unfolding s k using ih by simp
  next
    case (Ok obj)
    with Cons.prems
    have "decode_rows decode md5Sum msg cfgs
            (objs(ID a \<mapsto> obj), cks(ID a \<mapsto> md5Sum (Value a)), lg) = Ok (objs', cks', lg')"
      by simp
    then have ih: "dom objs' = dom (objs(ID a \<mapsto> obj)) \<union> ?S \<and>
                   dom cks' = dom (cks(ID a \<mapsto> md5Sum (Value a))) \<union> ?S \<and>
                   length lg' = length lg + ?K"
      by (rule Cons.IH)
    have s: "ID ` {v \<in> set (a # cfgs). is_Ok (decode v)} = insert (ID a) ?S" using Ok by auto
    have k: "length (filter (\<lambda>v. is_Err (decode v)) (a # cfgs)) = ?K" using Ok by simp
    show ?thesis unfolding s k using ih by simp
  qed
qed

lemma decode_rows_other:
  "decode_rows decode md5Sum msg cfgs (objs, cks, lg) = Ok (objs', cks', lg') \<Longrightarrow>
   i \<notin> ID ` set cfgs \<Longrightarrow> cks' i = cks i \<and> objs' i = objs i"
proof (induction cfgs arbitrary: objs cks lg)
  case Nil
  then show ?case by simp
next
  case (Cons a cfgs)
  from Cons.prems(2) have i: "i \<notin> ID ` set cfgs" "i \<noteq> ID a" by auto
  show ?case
  proof (cases "decode a")
    case (Panic m)
    with Cons.prems show ?thesis by simp
  next
    case (Err e)
    with Cons.prems(1)
    have "decode_rows decode md5Sum msg cfgs (objs, cks, lg @ [(msg, a, e)]) = Ok (objs', cks', lg')"
      by simp
    then show ?thesis using i(1) by (rule Cons.IH)
  next
    case (Ok obj)
    with Cons.prems(1)
    have "decode_rows decode md5Sum msg cfgs
            (objs(ID a \<mapsto> obj), cks(ID a \<mapsto> md5Sum (Value a)), lg) = Ok (objs', cks', lg')"
      by simp
    then have "cks' i = (cks(ID a \<mapsto> md5Sum (Value a))) i \<and> objs' i = (objs(ID a \<mapsto> obj)) i"
      using i(1) by (rule Cons.IH)
    with i(2) show ?thesis by simp
  qed
qed

lemma decode_rows_checksum:
  "decode_rows decode md5Sum msg cfgs (objs, cks, lg) = Ok (objs', cks', lg') \<Longrightarrow>
   distinct (map ID cfgs) \<Longrightarrow> v \<in> set cfgs \<Longrightarrow> is_Ok (decode v) \<Longrightarrow>
   cks' (ID v) = Some (md5Sum (Value v))"
proof (induction cfgs arbitrary: objs cks lg)
  case Nil
  then show ?case by simp
next
  case (Cons a cfgs)
  from Cons.prems(2) have dist: "distinct (map ID cfgs)" and fresh: "ID a \<notin> ID ` set cfgs"
    by auto
  show ?case
  proof (cases "v = a")
    case True
    with Cons.prems(4) obtain obj where ok: "decode a = Ok obj" by (cases "decode a") auto
    with Cons.prems(1)
    have run: "decode_rows decode md5Sum msg cfgs
                 (objs(ID a \<mapsto> obj), cks(ID a \<mapsto> md5Sum (Value a)), lg) = Ok (objs', cks', lg')"
      by simp
    from decode_rows_other [OF run fresh] True show ?thesis by simp
  next
    case False
    with Cons.prems(3) have v: "v \<in> set cfgs" by simp
    show ?thesis
    proof (cases "decode a")
      case (Panic m)
      with Cons.prems(1) show ?thesis by simp
    next
      case (Err e)
      with Cons.prems(1)
      have "decode_rows decode md5Sum msg cfgs (objs, cks, lg @ [(msg, a, e)]) = Ok (objs', cks', lg')"
        by simp
      then show ?thesis using dist v Cons.prems(4) by (rule Cons.IH)
    next
      case (Ok obj)
      with Cons.prems(1)
      have "decode_rows decode md5Sum msg cfgs
              (objs(ID a \<mapsto> obj), cks(ID a \<mapsto> md5Sum (Value a)), lg) = Ok (objs', cks', lg')"
        by simp
      then show ?thesis using dist v Cons.prems(4) by (rule Cons.IH)
    qed
  qed
qed


lemma Find_name_like_rows:
  "Find_name_like pattern d = Inr cfgs \<Longrightarrow>
   \<not> unavailable d \<and> cfgs = filter (\<lambda>c. sql_like pattern (Name c)) (configs d)"
  by (auto simp: Find_name_like_def split: if_splits)






subsection \<open>The loop of LoadNodeRouteGroups\<close>








subsection \<open>The fingerprint entered for a row\<close>

lemma loader_checksum:
  assumes "wf_db d" and "Find_name_like pattern d = Inr cfgs"
    and "(if length cfgs = 0 then Ok (Map.empty, Map.empty, [])
          else decode_rows decode md5Sum msg cfgs (Map.empty, Map.empty, []))
         = Ok (objs, cks, lg)"
    and "v \<in> set (configs d)" and "ID v \<in> dom cks"
  shows "cks (ID v) = Some (md5Sum (Value v))"
proof (cases "cfgs = []")
  case True
  with assms(3,5) show ?thesis by auto
next
  case False
  with assms(3) have run:
    "decode_rows decode md5Sum msg cfgs (Map.empty, Map.empty, []) = Ok (objs, cks, lg)"
    by simp
  from assms(2) have rows: "cfgs = filter (\<lambda>c. sql_like pattern (Name c)) (configs d)"
    by (simp add: Find_name_like_rows)
  from assms(1) have dist: "distinct (map ID (configs d))" by (simp add: wf_db_def)
  with rows have dist': "distinct (map ID cfgs)" by (simp add: distinct_map_filter)
  from decode_rows_dom [OF run] have "dom cks = ID ` {w \<in> set cfgs. is_Ok (decode w)}"
    by simp
  with assms(5) obtain w where w: "w \<in> set cfgs" "is_Ok (decode w)" "ID w = ID v"
    by auto
  from w(1) rows have "w \<in> set (configs d)" by simp
  with dist assms(4) w(3) have "w = v"
    by (auto simp: distinct_map inj_on_def)
  with w have "v \<in> set cfgs" "is_Ok (decode v)" by simp_all
  with run dist' show ?thesis by (rule decode_rows_checksum)
qed

lemma LoadAcl_checksum:
  assumes "wf_db d"
    and "LoadAclAllowListConfigs NewAllowList Unmarshal md5Sum d = Ok (als, cks, lg)"
    and "v \<in> set (configs d)" and "ID v \<in> dom cks"
  shows "cks (ID v) = Some (md5Sum (Value v))"
proof -
  from assms(2) obtain cfgs where
    f: "Find_name_like aclAllowListSqlMatchPattern d = Inr cfgs"
    by (cases "Find_name_like aclAllowListSqlMatchPattern d")
       (simp_all add: LoadAclAllowListConfigs_def)
  with assms(2) have
    "(if length cfgs = 0 then Ok (Map.empty, Map.empty, [])
      else decode_rows (decodeAclAllowLists NewAllowList Unmarshal) md5Sum
             ''Invalid access control allowlist config'' cfgs (Map.empty, Map.empty, []))
     = Ok (als, cks, lg)"
    by (simp add: LoadAclAllowListConfigs_def)
  with assms(1) f show ?thesis using assms(3,4) by (rule loader_checksum)
qed

lemma LoadRate_checksum:
  assumes "wf_db d"
    and "LoadRateLimitStrategyConfigs NewStrategy Unmarshal md5Sum d = Ok (stgs, cks, lg)"
    and "v \<in> set (configs d)" and "ID v \<in> dom cks"
  shows "cks (ID v) = Some (md5Sum (Value v))"
proof -
  from assms(2) obtain cfgs where
    f: "Find_name_like rateLimitStrategySqlMatchPattern d = Inr cfgs"
    by (cases "Find_name_like rateLimitStrategySqlMatchPattern d")
       (simp_all add: LoadRateLimitStrategyConfigs_def)
  with assms(2) have
    "(if length cfgs = 0 then Ok (Map.empty, Map.empty, [])
      else decode_rows (decodeRateLimitStrategy NewStrategy Unmarshal) md5Sum
             ''Invalid rate limit strategy config'' cfgs (Map.empty, Map.empty, []))
     = Ok (stgs, cks, lg)"
    by (simp add: LoadRateLimitStrategyConfigs_def)
  with assms(1) f show ?thesis using assms(3,4) by (rule loader_checksum)
qed

subsection \<open>Single rows\<close>

lemma First_name_eq_Inr:
  "First_name_eq n d = Inr c \<Longrightarrow> c \<in> set (configs d) \<and> Name c = n \<and> \<not> unavailable d"
proof -
  assume a: "First_name_eq n d = Inr c"
  then have up: "\<not> unavailable d" by (auto simp: First_name_eq_def split: if_splits)
  with a obtain cs where "filter (\<lambda>c. Name c = n) (configs d) = c # cs"
    by (auto simp: First_name_eq_def split: list.splits)
  then have "c \<in> set (filter (\<lambda>c. Name c = n) (configs d))" by simp
  with up show ?thesis by simp
qed

lemma First_by_ID_row:
  assumes "wf_db d" and "\<not> unavailable d" and "v \<in> set (configs d)"
  shows "First_by_ID (ID v) d = Inr v"
proof -
  from assms(1,3) have "ID v \<noteq> 0" by (auto simp: wf_db_def list_all_iff wf_row_def)
  then have "filter (\<lambda>c. ID v = 0 \<or> ID c = ID v) (configs d)
               = filter (\<lambda>c. ID c = ID v) (configs d)" by simp
  also from assms(1,3) have "\<dots> = [v]" by (simp add: wf_db_def filter_unique)
  finally show ?thesis using assms(2) by (simp add: First_by_ID_def)
qed

section \<open>The claims\<close>

text \<open>
  C1. On a reachable store with no row "reorg.version", GetReorgVersion returns 0 and a
  nil error, and after M serialized calls of createOrUpdateReorgVersion it returns M,
  for every M below 2^63: each call reads the version v and upserts the decimal string
  of v + 1 (lemma \<open>bump_step\<close>). The bound is that of Go's 64-bit int: the addition wraps,
  and the call number 2^63 stores the version -2^63, as the counterexample shows.
\<close>

theorem reorg_version_counts_bumps:
  assumes "\<not> unavailable d"
    and "\<not> list_ex (\<lambda>c. Name c = MysqlConfKeyReorgVersion) (configs d)"
    and "M < 2 ^ 63"
  shows "GetReorgVersion d = (0, None) \<and> bumps_then_get M d = Ok (int M, None)"
proof -
  from assms(1,2) have g0: "GetReorgVersion d = (0, None)" by (rule GetReorgVersion_absent)
  from bumps_version [OF assms(1) g0, of M] obtain d' where
    "bumps M d = Ok d'" "GetReorgVersion d' = (wrap_int64 (0 + int M), None)" by blast
  moreover from assms(3) have "is_int64 (int M)"
    by (simp add: is_int64_def)
  ultimately show ?thesis using g0 by (simp add: bumps_then_get_def wrap_int64_id)
qed

theorem reorg_version_counts_bumps_witness:
  "\<not> unavailable empty_db \<and>
   \<not> list_ex (\<lambda>c. Name c = MysqlConfKeyReorgVersion) (configs empty_db) \<and>
   (3::nat) < 2 ^ 63 \<and>
   GetReorgVersion empty_db = (0, None) \<and> bumps_then_get 3 empty_db = Ok (3, None)"
proof -
  have h1: "\<not> unavailable empty_db" by (simp add: empty_db_def)
  have h2: "\<not> list_ex (\<lambda>c. Name c = MysqlConfKeyReorgVersion) (configs empty_db)"
    by (simp add: empty_db_def)
  have h3: "(3::nat) < 2 ^ 63" by simp
  from reorg_version_counts_bumps [OF h1 h2 h3] h1 h2 show ?thesis by simp
qed

theorem reorg_version_wraps_counterexample:
  "bumps_then_get (2 ^ 63) empty_db = Ok (- 9223372036854775808, None) \<and>
   bumps_then_get (2 ^ 63) empty_db \<noteq> Ok (int (2 ^ 63), None)"
proof -
  have h1: "\<not> unavailable empty_db" by (simp add: empty_db_def)
  have h2: "\<not> list_ex (\<lambda>c. Name c = MysqlConfKeyReorgVersion) (configs empty_db)"
    by (simp add: empty_db_def)
  from h1 h2 have g0: "GetReorgVersion empty_db = (0, None)" by (rule GetReorgVersion_absent)
  from bumps_version [OF h1 g0, of "2 ^ 63"] obtain d' where
    "bumps (2 ^ 63) empty_db = Ok d'"
    "GetReorgVersion d' = (wrap_int64 (0 + int (2 ^ 63)), None)" by blast
  moreover have "wrap_int64 (0 + int (2 ^ 63)) = - 9223372036854775808"
    by (simp add: wrap_int64_def)
  ultimately show ?thesis by (simp add: bumps_then_get_def)
qed

text \<open>
  C2. On a well-formed store, StoreConfig of a string to a name that has a row succeeds
  exactly when the store is reachable and the value fits its column (otherwise it
  returns an error and the store is as it was). When it succeeds the number of rows is
  kept; every row keeps its id, its name and its created_at; the row of that name holds
  the new value and every other row is unchanged; there is still exactly one row of
  that name, and the next id to allocate is the same. The theorem states nothing about
  updated_at, the one other column the claim allows to change.
\<close>

theorem StoreConfig_existing_name_frame:
  assumes "wf_db d" and "list_ex (\<lambda>c. Name c = confName) (configs d)"
  shows "(is_Ok (StoreConfig confName (AnyString val) d)
            \<longleftrightarrow> \<not> unavailable d \<and> length val \<le> value_size) \<and>
         (StoreConfig confName (AnyString val) d = Ok d' \<longrightarrow>
            length (configs d') = length (configs d) \<and>
            (\<forall>i<length (configs d).
               ID (configs d' ! i) = ID (configs d ! i) \<and>
               Name (configs d' ! i) = Name (configs d ! i) \<and>
               CreatedAt (configs d' ! i) = CreatedAt (configs d ! i) \<and>
               (if Name (configs d ! i) = confName then Value (configs d' ! i) = val
                else configs d' ! i = configs d ! i)) \<and>
            length (filter (\<lambda>c. Name c = confName) (configs d')) = 1 \<and>
            auto_increment d' = auto_increment d \<and> wf_db d')"
proof (intro conjI impI)
  from assms(2) obtain c where c: "c \<in> set (configs d)" "Name c = confName"
    by (auto simp: list_ex_iff)
  with assms(1) have ln: "length confName \<le> name_size"
    by (auto simp: wf_db_def list_all_iff wf_row_def)
  with assms(2) show "is_Ok (StoreConfig confName (AnyString val) d)
            \<longleftrightarrow> \<not> unavailable d \<and> length val \<le> value_size"
    by (auto simp: StoreConfig_def Create_OnConflict_def)
  let ?upd = "\<lambda>c. if Name c = confName then c\<lparr>Value := val\<rparr> else c"
  assume run: "StoreConfig confName (AnyString val) d = Ok d'"
  then have cr: "Create_OnConflict confName val d = Ok d'" by (simp add: StoreConfig_def)
  with assms(2) have d': "d' = d\<lparr>configs := map ?upd (configs d)\<rparr>"
    by (auto simp: Create_OnConflict_def split: if_splits)
  from assms(1) cr show wf': "wf_db d'" by (rule Create_OnConflict_wf)
  have "map Name (configs d') = map Name (configs d)"
    unfolding d' by (simp add: Name_update_value)
  then have "set (map Name (configs d')) = set (map Name (configs d))" by simp
  with c have "confName \<in> set (map Name (configs d'))" by (simp add: image_iff) blast
  then have ex': "list_ex (\<lambda>c. Name c = confName) (configs d')"
    unfolding list_ex_iff by (auto simp del: map_map)
  from wf' have "distinct (map Name (configs d'))" by (simp add: wf_db_def)
  then show "length (filter (\<lambda>c. Name c = confName) (configs d')) = 1"
    using ex' by (rule unique_name_one_row)
  show "length (configs d') = length (configs d)" unfolding d' by simp
  show "auto_increment d' = auto_increment d" unfolding d' by simp
  show "\<forall>i<length (configs d).
               ID (configs d' ! i) = ID (configs d ! i) \<and>
               Name (configs d' ! i) = Name (configs d ! i) \<and>
               CreatedAt (configs d' ! i) = CreatedAt (configs d ! i) \<and>
               (if Name (configs d ! i) = confName then Value (configs d' ! i) = val
                else configs d' ! i = configs d ! i)"
    unfolding d' by simp
qed

theorem StoreConfig_existing_name_frame_witness:
  "wf_db sample_db \<and>
   list_ex (\<lambda>c. Name c = ''reorg.version'') (configs sample_db) \<and>
   is_Ok (StoreConfig ''reorg.version'' (AnyString ''42'') sample_db) \<and>
   \<not> unavailable sample_db \<and> length ''42'' \<le> value_size \<and>
   (\<exists>d'. StoreConfig ''reorg.version'' (AnyString ''42'') sample_db = Ok d' \<and>
      configs d' =
        [\<lparr>ID = 1, Name = ''reorg.version'', Value = ''42'', CreatedAt = 3, UpdatedAt = 3\<rparr>,
         \<lparr>ID = 2, Name = ''acl.allowlist.fluent'', Value = ''{}'', CreatedAt = 4, UpdatedAt = 4\<rparr>] \<and>
      length (filter (\<lambda>c. Name c = ''reorg.version'') (configs d')) = 1 \<and>
      auto_increment d' = auto_increment sample_db \<and> wf_db d')"
proof -
  have h1: "wf_db sample_db"
    by (simp add: sample_db_def wf_db_def wf_row_def name_size_def value_size_def)
  have h2: "list_ex (\<lambda>c. Name c = ''reorg.version'') (configs sample_db)"
    by (simp add: sample_db_def)
  have up: "\<not> unavailable sample_db" "length ''42'' \<le> value_size"
    by (simp_all add: sample_db_def value_size_def)
  note inst = StoreConfig_existing_name_frame [OF h1 h2, of "''42''"]
  from inst [THEN conjunct1] up
  have ok: "is_Ok (StoreConfig ''reorg.version'' (AnyString ''42'') sample_db)" by simp
  then obtain d' where d': "StoreConfig ''reorg.version'' (AnyString ''42'') sample_db = Ok d'"
    by (cases "StoreConfig ''reorg.version'' (AnyString ''42'') sample_db") simp_all
  from inst [THEN conjunct2, THEN mp, OF d']
  have fr: "length (filter (\<lambda>c. Name c = ''reorg.version'') (configs d')) = 1"
    "auto_increment d' = auto_increment sample_db" "wf_db d'"
    by simp_all
  from d' have "configs d' =
        [\<lparr>ID = 1, Name = ''reorg.version'', Value = ''42'', CreatedAt = 3, UpdatedAt = 3\<rparr>,
         \<lparr>ID = 2, Name = ''acl.allowlist.fluent'', Value = ''{}'', CreatedAt = 4, UpdatedAt = 4\<rparr>]"
    by (auto simp: sample_db_def StoreConfig_def Create_OnConflict_def name_size_def value_size_def)
  with h1 h2 ok up d' fr show ?thesis by blast
qed




text \<open>
  C4. A row whose name is exactly the reserved prefix of a domain has an empty logical
  name, and the decoder of that domain returns the error of \<open>errors.New\<close> that says the
  name is too short (the validation error of the specification), whatever the value,
  the id and the timestamps of the row are and whatever the constructor and
  json.Unmarshal would do.
\<close>

theorem decoders_reject_empty_name:
  "(Name cfg = AclAllowListConfKeyPrefix \<longrightarrow>
      decodeAclAllowLists NewAllowList UnmarshalAl cfg = Err (ErrorsNew ''allowlist name is too short'')) \<and>
   (Name cfg = RateLimitStrategyConfKeyPrefix \<longrightarrow>
      decodeRateLimitStrategy NewStrategy UnmarshalSt cfg = Err (ErrorsNew ''strategy name is too short'')) \<and>
   (Name cfg = NodeRouteGroupConfKeyPrefix \<longrightarrow>
      decodeNodeRouteGroup UnmarshalNodes cfg = Err (ErrorsNew ''route group name is too short''))"
  by (simp add: decodeAclAllowLists_def decodeRateLimitStrategy_def decodeNodeRouteGroup_def)

theorem decoders_reject_empty_name_witness:
  "Name \<lparr>ID = 7, Name = ''acl.allowlist.'', Value = ''{}'', CreatedAt = 0, UpdatedAt = 0\<rparr>
     = AclAllowListConfKeyPrefix \<and>
   decodeAclAllowLists (\<lambda>i n. (i, n)) (\<lambda>data al. Inr al)
     \<lparr>ID = 7, Name = ''acl.allowlist.'', Value = ''{}'', CreatedAt = 0, UpdatedAt = 0\<rparr>
     = Err (ErrorsNew ''allowlist name is too short'') \<and>
   Name \<lparr>ID = 8, Name = ''ratelimit.strategy.'', Value = ''{}'', CreatedAt = 0, UpdatedAt = 0\<rparr>
     = RateLimitStrategyConfKeyPrefix \<and>
   decodeRateLimitStrategy (\<lambda>i n. (i, n)) (\<lambda>data stg. Inr stg)
     \<lparr>ID = 8, Name = ''ratelimit.strategy.'', Value = ''{}'', CreatedAt = 0, UpdatedAt = 0\<rparr>
     = Err (ErrorsNew ''strategy name is too short'') \<and>
   Name \<lparr>ID = 9, Name = ''noderoute.group.'', Value = ''{}'', CreatedAt = 0, UpdatedAt = 0\<rparr>
     = NodeRouteGroupConfKeyPrefix \<and>
   decodeNodeRouteGroup (\<lambda>data. Inr [])
     \<lparr>ID = 9, Name = ''noderoute.group.'', Value = ''{}'', CreatedAt = 0, UpdatedAt = 0\<rparr>
     = Err (ErrorsNew ''route group name is too short'')"
  using
    decoders_reject_empty_name
      [where cfg = "\<lparr>ID = 7, Name = ''acl.allowlist.'', Value = ''{}'', CreatedAt = 0, UpdatedAt = 0\<rparr>"
         and NewAllowList = "\<lambda>i n. (i, n)" and UnmarshalAl = "\<lambda>data al. Inr al"]
    decoders_reject_empty_name
      [where cfg = "\<lparr>ID = 8, Name = ''ratelimit.strategy.'', Value = ''{}'', CreatedAt = 0, UpdatedAt = 0\<rparr>"
         and NewStrategy = "\<lambda>i n. (i, n)" and UnmarshalSt = "\<lambda>data stg. Inr stg"]
    decoders_reject_empty_name
      [where cfg = "\<lparr>ID = 9, Name = ''noderoute.group.'', Value = ''{}'', CreatedAt = 0, UpdatedAt = 0\<rparr>"
         and UnmarshalNodes = "\<lambda>data. Inr []"]
  by (simp add: AclAllowListConfKeyPrefix_def RateLimitStrategyConfKeyPrefix_def
        NodeRouteGroupConfKeyPrefix_def)

text \<open>
  C5. Round trip of a node route group. On a well-formed, reachable store, for a group
  with a non-empty name whose key and payload fit their columns, StoreNodeRouteGroup
  succeeds; the row of the key then holds the payload that json.Marshal produced,
  LoadConfig of the key returns that payload unchanged, and LoadNodeRouteGroups of the
  group name returns, under that name and with no warning, exactly one group, with the
  id of the row, the same name and, when json.Unmarshal reads back what json.Marshal
  wrote for these nodes, the same Nodes. The codec of encoding/json is a parameter, and
  its round trip on the stored nodes is the hypothesis that makes the value valid.
\<close>

theorem store_then_load_node_route_group:
  assumes "wf_db d" and "\<not> unavailable d"
    and "grpName routeGrp \<noteq> []"
    and "length (NodeRouteGroupConfKeyPrefix @ grpName routeGrp) \<le> name_size"
    and "MarshalNodes (Nodes routeGrp) = Inr payload"
    and "length payload \<le> value_size"
    and "UnmarshalNodes payload = Inr (Nodes routeGrp)"
  shows "\<exists>d' row.
           StoreNodeRouteGroup MarshalNodes routeGrp d = Ok d' \<and>
           First_name_eq (NodeRouteGroupConfKeyPrefix @ grpName routeGrp) d' = Inr row \<and>
           Value row = payload \<and>
           LoadConfig [NodeRouteGroupConfKeyPrefix @ grpName routeGrp] d'
             = Ok [NodeRouteGroupConfKeyPrefix @ grpName routeGrp \<mapsto> AnyString payload] \<and>
           LoadNodeRouteGroups UnmarshalNodes [grpName routeGrp] d'
             = Ok ([grpName routeGrp \<mapsto>
                     \<lparr>grpID = ID row, grpName = grpName routeGrp, Nodes = Nodes routeGrp\<rparr>], [])"
proof -
  let ?key = "NodeRouteGroupConfKeyPrefix @ grpName routeGrp"
  from assms(2,4,6) obtain d' where c: "Create_OnConflict ?key payload d = Ok d'"
    using Create_OnConflict_total by blast
  with assms(5) have store: "StoreNodeRouteGroup MarshalNodes routeGrp d = Ok d'"
    by (simp add: StoreNodeRouteGroup_def StoreConfig_def)
  from assms(1) c have wf': "wf_db d'" by (rule Create_OnConflict_wf)
  from c obtain row where up': "\<not> unavailable d'"
    and first: "First_name_eq ?key d' = Inr row" and val: "Value row = payload"
    using Create_OnConflict_First by blast
  from first have row: "row \<in> set (configs d')" "Name row = ?key"
    by (simp_all add: First_name_eq_Inr)
  from wf' have "distinct (map Name (configs d'))" by (simp add: wf_db_def)
  with row(1) have "filter (\<lambda>c. Name c = Name row) (configs d') = [row]"
    by (simp add: filter_unique)
  with row(2) have one: "filter (\<lambda>c. Name c = ?key) (configs d') = [row]" by simp
  with up' have find: "Find_name_in [?key] d' = Inr [row]"
    by (simp add: Find_name_in_def)
  with row(2) val have cfg: "LoadConfig [?key] d' = Ok [?key \<mapsto> AnyString payload]"
    by (simp add: LoadConfig_def)
  from row(2) assms(3,7) val
  have dec: "decodeNodeRouteGroup UnmarshalNodes row
               = Ok \<lparr>grpID = ID row, grpName = grpName routeGrp, Nodes = Nodes routeGrp\<rparr>"
    by (simp add: decodeNodeRouteGroup_def)
  from find dec
  have "LoadNodeRouteGroups UnmarshalNodes [grpName routeGrp] d'
          = Ok ([grpName routeGrp \<mapsto>
                  \<lparr>grpID = ID row, grpName = grpName routeGrp, Nodes = Nodes routeGrp\<rparr>], [])"
    by (simp add: LoadNodeRouteGroups_def)
  with store first val cfg show ?thesis by blast
qed

theorem store_then_load_node_route_group_witness:
  "wf_db sample_db \<and> \<not> unavailable sample_db \<and> grpName sample_group \<noteq> [] \<and>
   length (NodeRouteGroupConfKeyPrefix @ grpName sample_group) \<le> name_size \<and>
   sample_MarshalNodes (Nodes sample_group) = Inr sample_payload \<and>
   length sample_payload \<le> value_size \<and>
   sample_UnmarshalNodes sample_payload = Inr (Nodes sample_group) \<and>
   (\<exists>d' row.
      StoreNodeRouteGroup sample_MarshalNodes sample_group sample_db = Ok d' \<and>
      First_name_eq ''noderoute.group.cfxvip'' d' = Inr row \<and>
      Value row = sample_payload \<and>
      LoadNodeRouteGroups sample_UnmarshalNodes [''cfxvip''] d'
        = Ok ([''cfxvip'' \<mapsto>
                \<lparr>grpID = ID row, grpName = ''cfxvip'', Nodes = [''http://n1'']\<rparr>], []))"
proof -
  have h1: "wf_db sample_db"
    by (simp add: sample_db_def wf_db_def wf_row_def name_size_def value_size_def)
  have h2: "\<not> unavailable sample_db" by (simp add: sample_db_def)
  have h3: "grpName sample_group \<noteq> []" by (simp add: sample_group_def)
  have h4: "length (NodeRouteGroupConfKeyPrefix @ grpName sample_group) \<le> name_size"
    by (simp add: sample_group_def NodeRouteGroupConfKeyPrefix_def name_size_def)
  have h5: "sample_MarshalNodes (Nodes sample_group) = Inr sample_payload"
    by (simp add: sample_group_def sample_MarshalNodes_def sample_payload_def)
  have h6: "length sample_payload \<le> value_size"
    by (simp add: sample_payload_def value_size_def)
  have h7: "sample_UnmarshalNodes sample_payload = Inr (Nodes sample_group)"
    by (simp add: sample_group_def sample_UnmarshalNodes_def sample_payload_def)
  have g: "grpName sample_group = ''cfxvip''" "Nodes sample_group = [''http://n1'']"
    "NodeRouteGroupConfKeyPrefix @ ''cfxvip'' = ''noderoute.group.cfxvip''"
    by (simp_all add: sample_group_def NodeRouteGroupConfKeyPrefix_def)
  from store_then_load_node_route_group
    [where MarshalNodes = sample_MarshalNodes and UnmarshalNodes = sample_UnmarshalNodes,
     OF h1 h2 h3 h4 h5 h6 h7]
  have "\<exists>d' row.
      StoreNodeRouteGroup sample_MarshalNodes sample_group sample_db = Ok d' \<and>
      First_name_eq ''noderoute.group.cfxvip'' d' = Inr row \<and>
      Value row = sample_payload \<and>
      LoadNodeRouteGroups sample_UnmarshalNodes [''cfxvip''] d'
        = Ok ([''cfxvip'' \<mapsto>
                \<lparr>grpID = ID row, grpName = ''cfxvip'', Nodes = [''http://n1'']\<rparr>], [])"
    unfolding g by blast
  with h1 h2 h3 h4 h5 h6 h7 show ?thesis by blast
qed

text \<open>
  C6. The loaders do not change the store (they return maps and warnings only), and the
  fingerprint they return for a row is md5.Sum of the bytes of its value and of nothing
  else: on well-formed stores, whenever LoadAclAllowListConfigs or
  LoadRateLimitStrategyConfigs returns a fingerprint under the id of a row, it is the
  digest of that row's value, so two runs, on the same store or on different ones, give
  equal fingerprints to rows with equal values. md5.Sum is a parameter here: the
  theorem holds for every function from byte strings to digests.
\<close>

theorem fingerprint_depends_on_value_only:
  assumes "wf_db d" and "wf_db d'"
    and "v \<in> set (configs d)" and "v' \<in> set (configs d')"
    and "Value v = Value v'"
  shows "(LoadAclAllowListConfigs NewAllowList UnmarshalAl md5Sum d = Ok (als, cks, lg) \<and>
          LoadAclAllowListConfigs NewAllowList UnmarshalAl md5Sum d' = Ok (als', cks', lg') \<and>
          ID v \<in> dom cks \<and> ID v' \<in> dom cks' \<longrightarrow>
            cks (ID v) = Some (md5Sum (Value v)) \<and> cks' (ID v') = cks (ID v)) \<and>
         (LoadRateLimitStrategyConfigs NewStrategy UnmarshalSt md5Sum d = Ok (stgs, scks, slg) \<and>
          LoadRateLimitStrategyConfigs NewStrategy UnmarshalSt md5Sum d' = Ok (stgs', scks', slg') \<and>
          ID v \<in> dom scks \<and> ID v' \<in> dom scks' \<longrightarrow>
            scks (ID v) = Some (md5Sum (Value v)) \<and> scks' (ID v') = scks (ID v))"
proof (intro conjI impI)
  assume a: "LoadAclAllowListConfigs NewAllowList UnmarshalAl md5Sum d = Ok (als, cks, lg) \<and>
          LoadAclAllowListConfigs NewAllowList UnmarshalAl md5Sum d' = Ok (als', cks', lg') \<and>
          ID v \<in> dom cks \<and> ID v' \<in> dom cks'"
  from a assms(1,3) show 1: "cks (ID v) = Some (md5Sum (Value v))"
    by (auto intro: LoadAcl_checksum)
  from a assms(2,4) have "cks' (ID v') = Some (md5Sum (Value v'))"
    by (auto intro: LoadAcl_checksum)
  with 1 assms(5) show "cks' (ID v') = cks (ID v)" by simp
next
  assume a: "LoadRateLimitStrategyConfigs NewStrategy UnmarshalSt md5Sum d = Ok (stgs, scks, slg) \<and>
          LoadRateLimitStrategyConfigs NewStrategy UnmarshalSt md5Sum d' = Ok (stgs', scks', slg') \<and>
          ID v \<in> dom scks \<and> ID v' \<in> dom scks'"
  from a assms(1,3) show 1: "scks (ID v) = Some (md5Sum (Value v))"
    by (auto intro: LoadRate_checksum)
  from a assms(2,4) have "scks' (ID v') = Some (md5Sum (Value v'))"
    by (auto intro: LoadRate_checksum)
  with 1 assms(5) show "scks' (ID v') = scks (ID v)" by simp
qed


theorem fingerprint_depends_on_value_only_witness:
  "wf_db loader_db \<and>
   configs loader_db ! 0 \<in> set (configs loader_db) \<and>
   configs loader_db ! 2 \<in> set (configs loader_db) \<and>
   Value (configs loader_db ! 0) = Value (configs loader_db ! 2) \<and>
   (\<exists>als cks lg.
      LoadAclAllowListConfigs sample_New sample_Unmarshal sample_digest loader_db
        = Ok (als, cks, lg) \<and>
      ID (configs loader_db ! 0) \<in> dom cks \<and> ID (configs loader_db ! 2) \<in> dom cks \<and>
      cks (ID (configs loader_db ! 0)) = Some (sample_digest ''{}'') \<and>
      cks (ID (configs loader_db ! 2)) = cks (ID (configs loader_db ! 0))) \<and>
   configs loader_db ! 3 \<in> set (configs loader_db) \<and>
   configs loader_db ! 5 \<in> set (configs loader_db) \<and>
   Value (configs loader_db ! 3) = Value (configs loader_db ! 5) \<and>
   (\<exists>stgs cks lg.
      LoadRateLimitStrategyConfigs sample_New sample_Unmarshal sample_digest loader_db
        = Ok (stgs, cks, lg) \<and>
      ID (configs loader_db ! 3) \<in> dom cks \<and> ID (configs loader_db ! 5) \<in> dom cks \<and>
      cks (ID (configs loader_db ! 3)) = Some (sample_digest ''{}'') \<and>
      cks (ID (configs loader_db ! 5)) = cks (ID (configs loader_db ! 3)))"
proof -
  let ?v0 = "configs loader_db ! 0" and ?v2 = "configs loader_db ! 2"
  let ?v3 = "configs loader_db ! 3" and ?v5 = "configs loader_db ! 5"
  have h1: "wf_db loader_db"
    by (simp add: loader_db_def wf_db_def wf_row_def name_size_def value_size_def)
  have m: "?v0 \<in> set (configs loader_db)" "?v2 \<in> set (configs loader_db)"
          "?v3 \<in> set (configs loader_db)" "?v5 \<in> set (configs loader_db)"
    by (simp_all add: loader_db_def)
  have e: "Value ?v0 = Value ?v2" "Value ?v3 = Value ?v5" "Value ?v0 = ''{}''" "Value ?v3 = ''{}''"
    by (simp_all add: loader_db_def)
  have i: "ID ?v0 = 1" "ID ?v2 = 3" "ID ?v3 = 4" "ID ?v5 = 6"
    by (simp_all add: loader_db_def)
  obtain als cks lg where
    a: "LoadAclAllowListConfigs sample_New sample_Unmarshal sample_digest loader_db
          = Ok (als, cks, lg)"
    and da: "dom cks = {1, 3}"
    by (auto simp add: LoadAclAllowListConfigs_def Find_name_like_def like_acl loader_db_def
          AclAllowListConfKeyPrefix_def decodeAclAllowLists_def sample_New_def
          sample_Unmarshal_def)
  obtain stgs scks slg where
    s: "LoadRateLimitStrategyConfigs sample_New sample_Unmarshal sample_digest loader_db
          = Ok (stgs, scks, slg)"
    and ds: "dom scks = {4, 6}"
    by (auto simp add: LoadRateLimitStrategyConfigs_def Find_name_like_def like_rate loader_db_def
          RateLimitStrategyConfKeyPrefix_def decodeRateLimitStrategy_def sample_New_def
          sample_Unmarshal_def)
  have ra: "cks (ID ?v0) = Some (sample_digest (Value ?v0)) \<and> cks (ID ?v2) = cks (ID ?v0)"
  proof (rule fingerprint_depends_on_value_only
      [OF h1 h1 m(1) m(2) e(1), THEN conjunct1, THEN mp])
    from a da i
    show "LoadAclAllowListConfigs sample_New sample_Unmarshal sample_digest loader_db
            = Ok (als, cks, lg) \<and>
          LoadAclAllowListConfigs sample_New sample_Unmarshal sample_digest loader_db
            = Ok (als, cks, lg) \<and>
          ID ?v0 \<in> dom cks \<and> ID ?v2 \<in> dom cks"
      by simp
  qed
  have rs: "scks (ID ?v3) = Some (sample_digest (Value ?v3)) \<and> scks (ID ?v5) = scks (ID ?v3)"
  proof (rule fingerprint_depends_on_value_only
      [OF h1 h1 m(3) m(4) e(2), THEN conjunct2, THEN mp])
    from s ds i
    show "LoadRateLimitStrategyConfigs sample_New sample_Unmarshal sample_digest loader_db
            = Ok (stgs, scks, slg) \<and>
          LoadRateLimitStrategyConfigs sample_New sample_Unmarshal sample_digest loader_db
            = Ok (stgs, scks, slg) \<and>
          ID ?v3 \<in> dom scks \<and> ID ?v5 \<in> dom scks"
      by simp
  qed
  from a da i ra e have A: "\<exists>als cks lg.
      LoadAclAllowListConfigs sample_New sample_Unmarshal sample_digest loader_db
        = Ok (als, cks, lg) \<and>
      ID ?v0 \<in> dom cks \<and> ID ?v2 \<in> dom cks \<and>
      cks (ID ?v0) = Some (sample_digest ''{}'') \<and>
      cks (ID ?v2) = cks (ID ?v0)"
    by auto
  from s ds i rs e have S: "\<exists>stgs cks lg.
      LoadRateLimitStrategyConfigs sample_New sample_Unmarshal sample_digest loader_db
        = Ok (stgs, cks, lg) \<and>
      ID ?v3 \<in> dom cks \<and> ID ?v5 \<in> dom cks \<and>
      cks (ID ?v3) = Some (sample_digest ''{}'') \<and>
      cks (ID ?v5) = cks (ID ?v3)"
    by auto
  from h1 m e A S show ?thesis by blast
qed

text \<open>
  C7. On a well-formed, reachable store whose row "reorg.version" holds a value that is
  not a decimal integer string, GetReorgVersion returns the non-nil error of
  strconv.Atoi for that value (a NumError, the validation error of the specification),
  and createOrUpdateReorgVersion returns that error without writing: no version is
  taken from such a row.
\<close>

theorem GetReorgVersion_rejects_non_decimal:
  assumes "wf_db d" and "\<not> unavailable d"
    and "c \<in> set (configs d)" and "Name c = MysqlConfKeyReorgVersion"
    and "\<not> is_decimal_integer_string (Value c)"
  shows "\<exists>k. snd (GetReorgVersion d) = Some (NumError ''Atoi'' (Value c) k) \<and>
             createOrUpdateReorgVersion d = Err (NumError ''Atoi'' (Value c) k)"
proof -
  from assms(1) have "distinct (map Name (configs d))" by (simp add: wf_db_def)
  with assms(2,3) have "First_name_eq (Name c) d = Inr c" by (simp add: First_name_eq_unique)
  with assms(4) have get: "GetReorgVersion d = Atoi (Value c)"
    by (simp add: GetReorgVersion_def exists_name_eq_def)
  from assms(5) obtain v k where "Atoi (Value c) = (v, Some (NumError ''Atoi'' (Value c) k))"
    using Atoi_not_decimal by blast
  with get show ?thesis
    by (auto simp: createOrUpdateReorgVersion_def)
qed

theorem GetReorgVersion_rejects_non_decimal_witness:
  "wf_db corrupt_db \<and> \<not> unavailable corrupt_db \<and>
   \<lparr>ID = 1, Name = ''reorg.version'', Value = ''4x1'', CreatedAt = 3, UpdatedAt = 3\<rparr>
     \<in> set (configs corrupt_db) \<and>
   \<not> is_decimal_integer_string ''4x1'' \<and>
   GetReorgVersion corrupt_db = (0, Some (NumError ''Atoi'' ''4x1'' ErrSyntax)) \<and>
   createOrUpdateReorgVersion corrupt_db = Err (NumError ''Atoi'' ''4x1'' ErrSyntax)"
proof -
  let ?c = "\<lparr>ID = 1, Name = ''reorg.version'', Value = ''4x1'', CreatedAt = 3, UpdatedAt = 3\<rparr>"
  have h1: "wf_db corrupt_db"
    by (simp add: corrupt_db_def wf_db_def wf_row_def name_size_def value_size_def)
  have h2: "\<not> unavailable corrupt_db" by (simp add: corrupt_db_def)
  have h3: "?c \<in> set (configs corrupt_db)" by (simp add: corrupt_db_def)
  have h4: "Name ?c = MysqlConfKeyReorgVersion" by (simp add: MysqlConfKeyReorgVersion_def)
  have h5: "\<not> is_decimal_integer_string (Value ?c)"
    by (simp add: is_decimal_integer_string_def is_digit_def)
  have get: "GetReorgVersion corrupt_db = (0, Some (NumError ''Atoi'' ''4x1'' ErrSyntax))"
    by (simp add: GetReorgVersion_def exists_name_eq_def First_name_eq_def corrupt_db_def
          MysqlConfKeyReorgVersion_def Atoi_def ParseInt_def ParseUint_def is_digit_def
          maxUint64_def)
  from GetReorgVersion_rejects_non_decimal [OF h1 h2 h3 h4 h5] get
  have "createOrUpdateReorgVersion corrupt_db = Err (NumError ''Atoi'' ''4x1'' ErrSyntax)"
    by auto
  with h1 h2 h3 h5 get show ?thesis by simp
qed

text \<open>
  C8. DeleteConfig returns whether a row was removed. On a reachable store, for a name
  with no row it returns false and a nil error and leaves the store as it was; for a
  name with a row it returns true and a nil error, no row of that name is left, and the
  other rows stay, in their order.
\<close>

theorem DeleteConfig_reports_removal:
  assumes "\<not> unavailable d"
  shows "(\<not> list_ex (\<lambda>c. Name c = confName) (configs d) \<longrightarrow>
            DeleteConfig confName d = ((False, None), d)) \<and>
         (list_ex (\<lambda>c. Name c = confName) (configs d) \<longrightarrow>
            fst (DeleteConfig confName d) = (True, None) \<and>
            \<not> list_ex (\<lambda>c. Name c = confName) (configs (snd (DeleteConfig confName d))) \<and>
            configs (snd (DeleteConfig confName d))
              = filter (\<lambda>c. Name c \<noteq> confName) (configs d))"
proof (intro conjI impI)
  assume absent: "\<not> list_ex (\<lambda>c. Name c = confName) (configs d)"
  then have "filter (\<lambda>c. Name c = confName) (configs d) = []"
    by (auto simp: list_ex_iff filter_empty_conv)
  with assms absent show "DeleteConfig confName d = ((False, None), d)"
    by (simp add: DeleteConfig_def Delete_name_eq_def filter_Name_neq_id)
next
  assume present: "list_ex (\<lambda>c. Name c = confName) (configs d)"
  with assms show "fst (DeleteConfig confName d) = (True, None)"
    by (simp add: DeleteConfig_def Delete_name_eq_def filter_Name_eq_nonempty)
  from assms show "\<not> list_ex (\<lambda>c. Name c = confName) (configs (snd (DeleteConfig confName d)))"
    by (simp add: DeleteConfig_def Delete_name_eq_def list_ex_iff)
  from assms show "configs (snd (DeleteConfig confName d))
              = filter (\<lambda>c. Name c \<noteq> confName) (configs d)"
    by (simp add: DeleteConfig_def Delete_name_eq_def)
qed

theorem DeleteConfig_reports_removal_witness:
  "\<not> unavailable sample_db \<and>
   DeleteConfig ''acl.allowlist.none'' sample_db = ((False, None), sample_db) \<and>
   fst (DeleteConfig ''reorg.version'' sample_db) = (True, None) \<and>
   configs (snd (DeleteConfig ''reorg.version'' sample_db))
     = [\<lparr>ID = 2, Name = ''acl.allowlist.fluent'', Value = ''{}'', CreatedAt = 4, UpdatedAt = 4\<rparr>]"
  using DeleteConfig_reports_removal [of sample_db "''acl.allowlist.none''"]
        DeleteConfig_reports_removal [of sample_db "''reorg.version''"]
  by (simp add: sample_db_def)

text \<open>
  C9. StoreConfig asserts \<open>confVal.(string)\<close> without the comma-ok form: for a confVal
  of any dynamic type other than string the call panics, it does not return an error
  value; for a string it never panics.
\<close>

theorem StoreConfig_panics_unless_string:
  "((\<forall>s. confVal \<noteq> AnyString s) \<longrightarrow>
      StoreConfig confName confVal d = Panic ''interface conversion: interface {} is not string'') \<and>
   StoreConfig confName (AnyString s') d \<noteq> Panic msg"
  by (cases confVal) (auto simp: StoreConfig_def Create_OnConflict_def)

theorem StoreConfig_panics_unless_string_witness:
  "StoreConfig ''reorg.version'' (AnyInt 5) empty_db
     = Panic ''interface conversion: interface {} is not string'' \<and>
   StoreConfig ''reorg.version'' (AnyString ''5'') empty_db
     \<noteq> Panic ''interface conversion: interface {} is not string''"
  using StoreConfig_panics_unless_string
    [of "AnyInt 5" "''reorg.version''" empty_db "''5''"
        "''interface conversion: interface {} is not string''"]
  by simp

text \<open>
  C10. LoadAclAllowListById hands the row it finds under the id to decodeAclAllowLists,
  whatever the name of the row is. The decoder panics exactly when the name is shorter
  than the prefix "acl.allowlist."; for a longer name it never compares the first bytes
  with the prefix: it stamps the object with the bytes after position 14 and returns
  what json.Unmarshal returns. The witness is a store where the id of the row
  "reorg.version" (13 bytes) makes the call panic and the id of a rate-limit strategy
  gives an allow-list named "tegy.default".
\<close>

theorem LoadAclAllowListById_skips_prefix_check:
  assumes "wf_db d" and "\<not> unavailable d" and "v \<in> set (configs d)"
  shows "LoadAclAllowListById NewAllowList Unmarshal (ID v) d
           = decodeAclAllowLists NewAllowList Unmarshal v \<and>
         (is_Panic (decodeAclAllowLists NewAllowList Unmarshal v)
            \<longleftrightarrow> length (Name v) < length AclAllowListConfKeyPrefix) \<and>
         (length AclAllowListConfKeyPrefix < length (Name v) \<longrightarrow>
            decodeAclAllowLists NewAllowList Unmarshal v =
              (case Unmarshal (Value v)
                      (NewAllowList (ID v) (drop (length AclAllowListConfKeyPrefix) (Name v))) of
                 Inl err \<Rightarrow> Err err
               | Inr al \<Rightarrow> Ok al))"
proof (intro conjI impI)
  from assms show "LoadAclAllowListById NewAllowList Unmarshal (ID v) d
           = decodeAclAllowLists NewAllowList Unmarshal v"
    by (simp add: LoadAclAllowListById_def First_by_ID_row)
  show "is_Panic (decodeAclAllowLists NewAllowList Unmarshal v)
            \<longleftrightarrow> length (Name v) < length AclAllowListConfKeyPrefix"
    by (auto simp: decodeAclAllowLists_def Let_def split: sum.splits)
next
  assume "length AclAllowListConfKeyPrefix < length (Name v)"
  then show "decodeAclAllowLists NewAllowList Unmarshal v =
              (case Unmarshal (Value v)
                      (NewAllowList (ID v) (drop (length AclAllowListConfKeyPrefix) (Name v))) of
                 Inl err \<Rightarrow> Err err
               | Inr al \<Rightarrow> Ok al)"
    by (simp add: decodeAclAllowLists_def)
qed

theorem LoadAclAllowListById_skips_prefix_check_witness:
  "wf_db loader_db \<and> \<not> unavailable loader_db \<and>
   configs loader_db ! 8 \<in> set (configs loader_db) \<and>
   Name (configs loader_db ! 8) = ''reorg.version'' \<and>
   LoadAclAllowListById sample_New sample_Unmarshal 9 loader_db
     = Panic ''slice bounds out of range'' \<and>
   configs loader_db ! 3 \<in> set (configs loader_db) \<and>
   Name (configs loader_db ! 3) = ''ratelimit.strategy.default'' \<and>
   LoadAclAllowListById sample_New sample_Unmarshal 4 loader_db
     = Ok (4, ''tegy.default'', ''{}'')"
proof -
  let ?v8 = "configs loader_db ! 8" and ?v3 = "configs loader_db ! 3"
  have h1: "wf_db loader_db"
    by (simp add: loader_db_def wf_db_def wf_row_def name_size_def value_size_def)
  have h2: "\<not> unavailable loader_db" by (simp add: loader_db_def)
  have m: "?v8 \<in> set (configs loader_db)" "?v3 \<in> set (configs loader_db)"
    by (simp_all add: loader_db_def)
  have n: "Name ?v8 = ''reorg.version''" "Name ?v3 = ''ratelimit.strategy.default''"
    "ID ?v8 = 9" "ID ?v3 = 4"
    by (simp_all add: loader_db_def)
  have d8: "decodeAclAllowLists sample_New sample_Unmarshal ?v8
              = Panic ''slice bounds out of range''"
    by (simp add: loader_db_def decodeAclAllowLists_def AclAllowListConfKeyPrefix_def)
  have d3: "decodeAclAllowLists sample_New sample_Unmarshal ?v3
              = Ok (4, ''tegy.default'', ''{}'')"
    by (simp add: loader_db_def decodeAclAllowLists_def AclAllowListConfKeyPrefix_def
          sample_New_def sample_Unmarshal_def)
  from LoadAclAllowListById_skips_prefix_check [OF h1 h2 m(1), of sample_New sample_Unmarshal]
    d8 n
  have r8: "LoadAclAllowListById sample_New sample_Unmarshal 9 loader_db
              = Panic ''slice bounds out of range''"
    by simp
  from LoadAclAllowListById_skips_prefix_check [OF h1 h2 m(2), of sample_New sample_Unmarshal]
    d3 n
  have r3: "LoadAclAllowListById sample_New sample_Unmarshal 4 loader_db
              = Ok (4, ''tegy.default'', ''{}'')"
    by simp
  from h1 h2 m n r8 r3 show ?thesis by simp
qed

end
